theory Spec2Isabelle
  imports
    Main
    "HOL-Library.AList"
    "HOL-Library.Char_ord"
    "HOL-Library.List_Lexorder"
    "HOL-Library.Multiset"
begin

section \<open>Bronze-file validator: the data model\<close>

text \<open>
  Shallow embedding of \<^verbatim>\<open>bronze/validate_bronze_files.py\<close>. Everything the script
  obtains from outside (the process environment, the file system, pandas reading a
  spreadsheet) is a field of the record \<open>system\<close>, so that \<open>validate_year\<close> is a
  function of that record and of its three arguments.

  Strings are byte strings, the UTF-8 encoding of the text. A Python dictionary whose order or key set is observable is an
  association list in insertion order, written with \<open>AList.update\<close>, which keeps the place
  of a key already present and appends a new key, as assignment to a Python dictionary does.
\<close>

subsection \<open>Exceptions\<close>

text \<open>
  The exceptions of the script. \<open>Raised\<close> is whatever pandas or openpyxl raises while
  reading a workbook, identified by a tag; \<open>KeyError\<close> is what
  \<^verbatim>\<open>DataFrame.duplicated\<close> raises for a subset holding a label that is not a column.
\<close>

datatype exn =
    RuntimeError string
  | FileNotFoundError string
  | StopIteration
  | KeyError "string list"
  | Raised string

subsection \<open>Paths\<close>

text \<open>
  A \<^verbatim>\<open>pathlib.Path\<close> is its list of parts; \<^verbatim>\<open>p / s\<close> appends one part. \<open>name\<close> is
  the last part, the empty string for a path without parts.
\<close>

type_synonym path = "string list"

definition pjoin :: "path \<Rightarrow> string \<Rightarrow> path" where
  "pjoin p s = p @ [s]"

definition name :: "path \<Rightarrow> string" where
  "name p = (case rev p of [] \<Rightarrow> [] | n # _ \<Rightarrow> n)"

text \<open>\<^verbatim>\<open>str.rfind\<close> for a single character: the index of its last occurrence.\<close>

fun rfind :: "char \<Rightarrow> string \<Rightarrow> nat option" where
  "rfind c [] = None"
| "rfind c (x # xs) =
     (case rfind c xs of
        Some i \<Rightarrow> Some (Suc i)
      | None \<Rightarrow> if x = c then Some 0 else None)"

text \<open>
  \<^verbatim>\<open>Path.stem\<close>: the name without its last suffix; a name whose only dot is its first or
  its last character has no suffix. A dot is one byte, so the byte index of the last dot
  cuts the name where its character index does.
\<close>

definition stem :: "path \<Rightarrow> string" where
  "stem p =
     (let n = name p in
      case rfind (CHR ''.'') n of
        None \<Rightarrow> n
      | Some i \<Rightarrow> if 0 < i \<and> i < length n - 1 then take i n else n)"

subsection \<open>Tables\<close>

text \<open>
  A data frame is its column labels and its rows; a cell is \<open>None\<close> when pandas holds a
  missing value there (\<^verbatim>\<open>isna\<close>), and \<open>Some v\<close> otherwise. The type of values is left
  open: the script only ever compares cells for equality. Labels are the header strings
  as pandas returns them, before \<open>normalize_cols\<close>.
\<close>

record 'v dataframe =
  columns :: "string list"
  data :: "'v option list list"

text \<open>
  What pandas guarantees of a frame read from a sheet: it is rectangular, its labels are
  pairwise different (pandas renames a repeated header), and it has no rows when it has no
  columns.
\<close>

definition wf_df :: "'v dataframe \<Rightarrow> bool" where
  "wf_df df \<longleftrightarrow>
     distinct (columns df) \<and>
     list_all (\<lambda>r. length r = length (columns df)) (data df) \<and>
     (columns df = [] \<longrightarrow> data df = [])"

text \<open>
  \<^verbatim>\<open>pd.read_excel\<close> gives one frame for a sheet name or index, and a dictionary of frames
  when asked for several sheets.
\<close>

datatype sheet_sel = SheetIndex nat | SheetName string

datatype 'v excel = Frame "'v dataframe" | Sheets "(string \<times> 'v dataframe) list"

subsection \<open>The outside world\<close>

record 'v system =
  getenv :: "string \<Rightarrow> string option"
  resolve_root :: "string \<Rightarrow> path"
  path_exists :: "path \<Rightarrow> bool"
  glob_xlsx :: "path \<Rightarrow> string list"
  read_excel :: "path \<Rightarrow> sheet_sel \<Rightarrow> exn + 'v excel"
  str_path :: "path \<Rightarrow> string"
  resolve :: "path \<Rightarrow> path"
  repr :: "exn \<Rightarrow> string"

text \<open>
  \<^item> \<open>getenv\<close> is \<^verbatim>\<open>os.getenv\<close>;
  \<^item> \<open>resolve_root s\<close> is \<^verbatim>\<open>Path(s).expanduser().resolve()\<close>;
  \<^item> \<open>path_exists\<close> is \<^verbatim>\<open>Path.exists\<close>;
  \<^item> \<open>glob_xlsx d\<close> is the names of the entries of directory \<open>d\<close> that match
    \<^verbatim>\<open>*.xlsx\<close>, in the order the file system yields them;
  \<^item> \<open>read_excel\<close> is \<^verbatim>\<open>pd.read_excel(path, sheet_name=..., engine="openpyxl")\<close>;
  \<^item> \<open>str_path\<close> is \<^verbatim>\<open>str\<close> of a path and \<open>resolve\<close> is \<^verbatim>\<open>Path.resolve\<close>;
  \<^item> \<open>repr\<close> is \<^verbatim>\<open>repr\<close> of an exception.
\<close>

subsection \<open>Results\<close>

record profile =
  rows :: nat
  cols :: nat
  total_nulls :: nat
  top_nulls :: "(string \<times> nat) list"

record mismatch =
  mm_file :: string
  missing_cols :: "string list"
  extra_cols :: "string list"
  order_diff_only :: bool

record read_error =
  re_file :: string
  re_error :: string

record file_result =
  fr_file :: string
  fr_path :: string
  fr_profile :: profile
  duplicates :: "(string \<times> nat) list"
  schema_matches_reference :: bool

text \<open>
  The dictionary \<open>validate_year\<close> returns has one of two key sets, so it is kept as a
  dictionary: an association list from keys to values of the kinds that occur.
\<close>

datatype pyval =
    PInt int
  | PStr string
  | PBool bool
  | PStrs "string list"
  | PMismatches "mismatch list"
  | PErrors "read_error list"
  | PFiles "file_result list"

type_synonym payload = "(string \<times> pyval) list"


section \<open>The operations\<close>

subsection \<open>Strings\<close>

text \<open>
  \<^verbatim>\<open>str.lower\<close> on the ASCII letters; every other byte is kept, which is what decides
  whether a lowered name is one of the (ASCII) aliases below.
\<close>

definition lower_chr :: "char \<Rightarrow> char" where
  "lower_chr c =
     (case map_of (zip ''ABCDEFGHIJKLMNOPQRSTUVWXYZ'' ''abcdefghijklmnopqrstuvwxyz'') c of
        Some d \<Rightarrow> d
      | None \<Rightarrow> c)"

definition lower :: "string \<Rightarrow> string" where
  "lower s = map lower_chr s"

definition startswith :: "string \<Rightarrow> string \<Rightarrow> bool" where
  "startswith s p \<longleftrightarrow> take (length p) s = p"

text \<open>
  \<^verbatim>\<open>str.strip()\<close> drops, at both ends, the characters \<^verbatim>\<open>str.isspace\<close> accepts: the
  code points 9 to 13, 28 to 32, U+0085, U+00A0, U+1680, U+2000 to U+200A, U+2028, U+2029,
  U+202F, U+205F and U+3000. \<open>whitespace\<close> lists them as their UTF-8 bytes. A lead byte
  never continues another character, so a string ends with one of these characters exactly
  when its bytes end with the bytes of that character.
\<close>

definition whitespace :: "string list" where
  "whitespace =
     map (\<lambda>c. [c])
       [CHR 0x09, CHR 0x0A, CHR 0x0B, CHR 0x0C, CHR 0x0D,
        CHR 0x1C, CHR 0x1D, CHR 0x1E, CHR 0x1F, CHR 0x20] @
     [[CHR 0xC2, CHR 0x85], [CHR 0xC2, CHR 0xA0], [CHR 0xE1, CHR 0x9A, CHR 0x80]] @
     map (\<lambda>c. [CHR 0xE2, CHR 0x80, c])
       [CHR 0x80, CHR 0x81, CHR 0x82, CHR 0x83, CHR 0x84, CHR 0x85, CHR 0x86, CHR 0x87,
        CHR 0x88, CHR 0x89, CHR 0x8A, CHR 0xA8, CHR 0xA9, CHR 0xAF] @
     [[CHR 0xE2, CHR 0x81, CHR 0x9F], [CHR 0xE3, CHR 0x80, CHR 0x80]]"

function drop_leading :: "string list \<Rightarrow> string \<Rightarrow> string" where
  "drop_leading ws s =
     (case find (\<lambda>w. w \<noteq> [] \<and> startswith s w) ws of
        None \<Rightarrow> s
      | Some w \<Rightarrow> drop_leading ws (drop (length w) s))"
  by pat_completeness auto
termination
proof (relation "measure (\<lambda>(ws, s). length s)")
  show "wf (measure (\<lambda>(ws, s). length s))" by simp
next
  fix ws :: "string list" and s w :: string
  assume "find (\<lambda>w. w \<noteq> [] \<and> startswith s w) ws = Some w"
  then have w: "w \<noteq> []" "take (length w) s = w"
    by (auto simp: find_Some_iff startswith_def)
  then have "s \<noteq> []" by auto
  with w(1) show "((ws, drop (length w) s), (ws, s)) \<in> measure (\<lambda>(ws, s). length s)"
    by simp
qed

declare drop_leading.simps [simp del]

definition strip :: "string \<Rightarrow> string" where
  "strip s = rev (drop_leading (map rev whitespace) (rev (drop_leading whitespace s)))"

text \<open>
  \<^verbatim>\<open>len\<close> of a string counts its characters: the bytes that do not continue a
  character (a continuation byte of UTF-8 is between 0x80 and 0xBF).
\<close>

definition is_continuation :: "char \<Rightarrow> bool" where
  "is_continuation c \<longleftrightarrow> CHR 0x80 \<le> c \<and> c < CHR 0xC0"

definition py_len :: "string \<Rightarrow> nat" where
  "py_len s = length (filter (\<lambda>c. \<not> is_continuation c) s)"

text \<open>\<^verbatim>\<open>str\<close> of an integer: its decimal digits, after a minus sign when negative.\<close>

fun digits :: "nat \<Rightarrow> string" where
  "digits n =
     (if n < 10 then [''0123456789'' ! n]
      else digits (n div 10) @ [''0123456789'' ! (n mod 10)])"

declare digits.simps [simp del]

definition str_int :: "int \<Rightarrow> string" where
  "str_int i = (if i < 0 then CHR ''-'' # digits (nat (- i)) else digits (nat i))"

subsection \<open>Configuration and discovery\<close>

record lake_paths =
  project :: string
  datalake_root :: path

definition bronze :: "lake_paths \<Rightarrow> path" where
  "bronze p = pjoin (pjoin (datalake_root p) ''01_bronze_raw'') (project p)"

text \<open>\<^verbatim>\<open>_env\<close>: the variable when it is set and not empty, the default or the empty string otherwise.\<close>

definition env :: "'v system \<Rightarrow> string \<Rightarrow> string option \<Rightarrow> string" where
  "env sys nm dflt =
     (let fallback = (case dflt of None \<Rightarrow> [] | Some d \<Rightarrow> d) in
      case getenv sys nm of
        None \<Rightarrow> fallback
      | Some v \<Rightarrow> if v = [] then fallback else v)"

definition resolve_paths :: "'v system \<Rightarrow> exn + lake_paths" where
  "resolve_paths sys =
     (let proj = env sys ''TOT_PROJECT'' (Some ''PROJ_05_FOOD_COMMERCE'');
          root = env sys ''TOT_DATALAKE_ROOT'' None
      in if root = []
         then Inl (RuntimeError
                ''Defina TOT_DATALAKE_ROOT (via setx) apontando para a pasta datalake.'')
         else Inr \<lparr>project = proj, datalake_root = resolve_root sys root\<rparr>)"

text \<open>
  \<^verbatim>\<open>sorted\<close> of the paths found compares their lists of parts, each part as a string.
\<close>

definition find_xlsx_files :: "'v system \<Rightarrow> path \<Rightarrow> int \<Rightarrow> exn + path list" where
  "find_xlsx_files sys bronze_project_root year =
     (let base = pjoin (pjoin bronze_project_root ''transactions'') (str_int year) in
      if \<not> path_exists sys base
      then Inl (FileNotFoundError
             (''Pasta n'' @ [CHR 0xC3, CHR 0xA3] @ ''o encontrada: '' @ str_path sys base))
      else Inr (sort (map (pjoin base) (glob_xlsx sys base))))"

definition normalize_cols :: "string list \<Rightarrow> string list" where
  "normalize_cols cs = map strip cs"

subsection \<open>Candidate keys\<close>

definition cliente_aliases :: "string list" where
  "cliente_aliases = [''id_cliente'', ''cliente_id'', ''customer_id'']"

definition data_aliases :: "string list" where
  "data_aliases = [''data'', ''dt'', ''data_compra'', ''purchase_date'', ''order_date'']"

definition pedido_aliases :: "string list" where
  "pedido_aliases =
     [''id_pedido'', ''pedido_id'', ''order_id'', ''id_transacao'', ''transacao_id'',
      ''transaction_id'']"

text \<open>
  Each of the three loops of \<open>pick_candidate_keys\<close> keeps the first column whose lowered
  name is an alias of its family, or \<^verbatim>\<open>None\<close>. The list \<^verbatim>\<open>cols\<close> of lowered names
  that the function builds first is never read.
\<close>

definition first_alias :: "string list \<Rightarrow> string list \<Rightarrow> string option" where
  "first_alias aliases cs = find (\<lambda>c. lower c \<in> set aliases) cs"

text \<open>The truth value Python gives \<^verbatim>\<open>None\<close> or a string in a condition.\<close>

fun truthy :: "string option \<Rightarrow> bool" where
  "truthy None = False"
| "truthy (Some s) = (s \<noteq> [])"

definition pick_candidate_keys :: "string list \<Rightarrow> (string \<times> string list) list" where
  "pick_candidate_keys cs =
     (let id_cliente = first_alias cliente_aliases cs;
          dt = first_alias data_aliases cs;
          id_pedido = first_alias pedido_aliases cs;
          candidates = [];
          candidates =
            (case id_pedido of
               Some p \<Rightarrow>
                 if truthy id_pedido then AList.update ''dup_order_id'' [p] candidates
                 else candidates
             | None \<Rightarrow> candidates);
          candidates =
            (case (id_cliente, dt) of
               (Some c, Some d) \<Rightarrow>
                 if truthy id_cliente \<and> truthy dt
                 then AList.update ''dup_cliente_data'' [c, d] candidates
                 else candidates
             | _ \<Rightarrow> candidates)
      in candidates)"

subsection \<open>Profile\<close>

text \<open>
  \<^verbatim>\<open>df.isna().sum()\<close> counts the missing cells of each column; the ten columns with most
  of them are kept, in a stable descending order, and those without any are then dropped.
\<close>

definition null_counts :: "'v dataframe \<Rightarrow> (string \<times> nat) list" where
  "null_counts df =
     map (\<lambda>j. (columns df ! j, length (filter (\<lambda>r. r ! j = None) (data df))))
       [0..<length (columns df)]"

definition basic_profile :: "'v dataframe \<Rightarrow> profile" where
  "basic_profile df =
     (let n_rows = length (data df);
          n_cols = length (columns df);
          total = sum_list (map snd (null_counts df));
          top = take 10 (sort_key (\<lambda>kv. - int (snd kv)) (null_counts df))
      in \<lparr>rows = n_rows, cols = n_cols, total_nulls = total,
          top_nulls = filter (\<lambda>kv. 0 < snd kv) top\<rparr>)"

subsection \<open>Reading a workbook\<close>

definition safe_read_excel :: "'v system \<Rightarrow> path \<Rightarrow> string option \<Rightarrow> exn + 'v dataframe" where
  "safe_read_excel sys p sheet =
     (case read_excel sys p (case sheet of None \<Rightarrow> SheetIndex 0 | Some s \<Rightarrow> SheetName s) of
        Inl e \<Rightarrow> Inl e
      | Inr (Frame df) \<Rightarrow> Inr df
      | Inr (Sheets []) \<Rightarrow> Inl StopIteration
      | Inr (Sheets ((first_key, df) # _)) \<Rightarrow> Inr df)"

subsection \<open>Duplicates\<close>

text \<open>
  \<^verbatim>\<open>duplicated\<close> with \<^verbatim>\<open>keep="first"\<close> marks an item that was seen before it. On a frame
  the items are the rows restricted to the columns of the subset (all columns without one);
  an empty frame has no marks, and a subset with a label that is not a column is a
  \<^verbatim>\<open>KeyError\<close>. Missing values are equal to each other there.
\<close>

fun duplicated_from :: "'a list \<Rightarrow> 'a list \<Rightarrow> bool list" where
  "duplicated_from seen [] = []"
| "duplicated_from seen (x # xs) = (x \<in> set seen) # duplicated_from (seen @ [x]) xs"

text \<open>The cell of a row under a label: \<open>None\<close> when the frame has no such column.\<close>

definition cell :: "'v dataframe \<Rightarrow> 'v option list \<Rightarrow> string \<Rightarrow> 'v option option" where
  "cell df r c = map_of (zip (columns df) r) c"

definition take_cols :: "'v dataframe \<Rightarrow> string list \<Rightarrow> 'v option list \<Rightarrow> 'v option option list" where
  "take_cols df cs r = map (cell df r) cs"

definition df_duplicated :: "'v dataframe \<Rightarrow> string list option \<Rightarrow> exn + bool list" where
  "df_duplicated df subs =
     (if columns df = [] \<or> data df = [] then Inr []
      else
        let sub = (case subs of None \<Rightarrow> columns df | Some s \<Rightarrow> s);
            diff = filter (\<lambda>c. c \<notin> set (columns df)) sub
        in if diff \<noteq> [] then Inl (KeyError diff)
           else Inr (duplicated_from [] (map (take_cols df sub) (data df))))"

text \<open>\<^verbatim>\<open>.sum()\<close> of a Boolean series: the number of marks.\<close>

definition count_true :: "bool list \<Rightarrow> nat" where
  "count_true bs = length (filter (\<lambda>b. b) bs)"

text \<open>The loop over \<^verbatim>\<open>key_candidates.items()\<close>, threading \<^verbatim>\<open>dup_info\<close>.\<close>

fun dup_keys ::
  "'v dataframe \<Rightarrow> (string \<times> string list) list \<Rightarrow> (string \<times> nat) list
     \<Rightarrow> exn + (string \<times> nat) list" where
  "dup_keys df [] dup_info = Inr dup_info"
| "dup_keys df ((kname, kcols) # ks) dup_info =
     (if list_all (\<lambda>c. c \<in> set (columns df)) kcols
      then (case df_duplicated df (Some kcols) of
              Inl e \<Rightarrow> Inl e
            | Inr marks \<Rightarrow> dup_keys df ks (AList.update kname (count_true marks) dup_info))
      else dup_keys df ks dup_info)"

definition dup_counts ::
  "'v dataframe \<Rightarrow> (string \<times> string list) list \<Rightarrow> exn + (string \<times> nat) list" where
  "dup_counts df key_candidates =
     (case df_duplicated df None of
        Inl e \<Rightarrow> Inl e
      | Inr marks \<Rightarrow>
          dup_keys df key_candidates
            (AList.update ''dup_full_row_count'' (count_true marks) []))"

subsection \<open>Schema comparison\<close>

definition missing_of :: "string list \<Rightarrow> string list \<Rightarrow> string list" where
  "missing_of cs ref_cols = filter (\<lambda>c. c \<notin> set cs) ref_cols"

definition extra_of :: "string list \<Rightarrow> string list \<Rightarrow> string list" where
  "extra_of cs ref_cols = filter (\<lambda>c. c \<notin> set ref_cols) cs"

definition order_diff_of :: "string list \<Rightarrow> string list \<Rightarrow> bool" where
  "order_diff_of cs ref_cols \<longleftrightarrow> sort cs = sort ref_cols \<and> cs \<noteq> ref_cols"

definition mismatch_of :: "string \<Rightarrow> string list \<Rightarrow> string list \<Rightarrow> mismatch" where
  "mismatch_of fname cs ref_cols =
     \<lparr>mm_file = fname, missing_cols = missing_of cs ref_cols,
      extra_cols = extra_of cs ref_cols, order_diff_only = order_diff_of cs ref_cols\<rparr>"

subsection \<open>The batch\<close>

text \<open>
  The body of the loop over the files, on the three lists it appends to. The
  \<^verbatim>\<open>try\<close> block covers the read and everything after it, and a mismatch is appended
  before the duplicates are counted.
\<close>

type_synonym acc = "file_result list \<times> mismatch list \<times> read_error list"

definition process_file ::
  "'v system \<Rightarrow> string option \<Rightarrow> string list \<Rightarrow> (string \<times> string list) list
     \<Rightarrow> path \<Rightarrow> acc \<Rightarrow> acc" where
  "process_file sys sheet ref_cols key_candidates f a =
     (case a of (results, schema_mismatches, read_errors) \<Rightarrow>
        (case safe_read_excel sys f sheet of
           Inl e \<Rightarrow>
             (results, schema_mismatches,
              read_errors @ [\<lparr>re_file = name f, re_error = repr sys e\<rparr>])
         | Inr df \<Rightarrow>
             let cs = normalize_cols (columns df);
                 schema_mismatches =
                   (if cs \<noteq> ref_cols
                    then schema_mismatches @ [mismatch_of (name f) cs ref_cols]
                    else schema_mismatches);
                 prof = basic_profile df
             in (case dup_counts df key_candidates of
                   Inl e \<Rightarrow>
                     (results, schema_mismatches,
                      read_errors @ [\<lparr>re_file = name f, re_error = repr sys e\<rparr>])
                 | Inr dup_info \<Rightarrow>
                     (results @
                        [\<lparr>fr_file = name f, fr_path = str_path sys f, fr_profile = prof,
                          duplicates = dup_info,
                          schema_matches_reference = (cs = ref_cols)\<rparr>],
                      schema_mismatches, read_errors))))"

fun process_files ::
  "'v system \<Rightarrow> string option \<Rightarrow> string list \<Rightarrow> (string \<times> string list) list
     \<Rightarrow> path list \<Rightarrow> acc \<Rightarrow> acc" where
  "process_files sys sheet ref_cols key_candidates [] a = a"
| "process_files sys sheet ref_cols key_candidates (f # fs) a =
     process_files sys sheet ref_cols key_candidates fs
       (process_file sys sheet ref_cols key_candidates f a)"

text \<open>The check of strict naming: the stem starts with the year and a dash and has seven characters.\<close>

definition name_ok :: "int \<Rightarrow> path \<Rightarrow> bool" where
  "name_ok year f \<longleftrightarrow> startswith (stem f) (str_int year @ ''-'') \<and> py_len (stem f) = 7"

definition derive_status :: "read_error list \<Rightarrow> mismatch list \<Rightarrow> string list \<Rightarrow> string" where
  "derive_status read_errors schema_mismatches name_issues =
     (if read_errors \<noteq> [] then ''error''
      else if schema_mismatches \<noteq> [] \<or> name_issues \<noteq> [] then ''warning''
      else ''ok'')"

definition validate_year :: "'v system \<Rightarrow> int \<Rightarrow> string option \<Rightarrow> bool \<Rightarrow> exn + payload" where
  "validate_year sys year sheet strict_name_pattern =
     (case resolve_paths sys of
        Inl e \<Rightarrow> Inl e
      | Inr p \<Rightarrow>
          let bronze_root = bronze p;
              year_dir = pjoin (pjoin bronze_root ''transactions'') (str_int year)
          in (case find_xlsx_files sys bronze_root year of
                Inl e \<Rightarrow> Inl e
              | Inr [] \<Rightarrow>
                  Inr [(''year'', PInt year),
                       (''status'', PStr ''no_files''),
                       (''message'',
                        PStr (''Nenhum .xlsx encontrado em '' @ str_path sys year_dir))]
              | Inr (ref_path # rest) \<Rightarrow>
                  let files = ref_path # rest;
                      name_issues =
                        (if strict_name_pattern
                         then map name (filter (\<lambda>f. \<not> name_ok year f) files)
                         else [])
                  in (case safe_read_excel sys ref_path sheet of
                        Inl e \<Rightarrow> Inl e
                      | Inr ref_df \<Rightarrow>
                          let ref_cols = normalize_cols (columns ref_df);
                              key_candidates = pick_candidate_keys ref_cols
                          in (case process_files sys sheet ref_cols key_candidates files
                                     ([], [], []) of
                                (results, schema_mismatches, read_errors) \<Rightarrow>
                                  Inr [(''year'', PInt year),
                                       (''status'',
                                        PStr (derive_status read_errors schema_mismatches
                                                name_issues)),
                                       (''base_dir'', PStr (str_path sys (resolve sys year_dir))),
                                       (''reference_file'', PStr (name ref_path)),
                                       (''reference_columns'', PStrs ref_cols),
                                       (''strict_name_pattern'', PBool strict_name_pattern),
                                       (''name_issues'', PStrs name_issues),
                                       (''schema_mismatches'', PMismatches schema_mismatches),
                                       (''read_errors'', PErrors read_errors),
                                       (''files'', PFiles results)]))))"

section \<open>Notions for the statements and their proofs\<close>

text \<open>
  The marks \<^verbatim>\<open>duplicated\<close> gives when it does not raise, and what one file adds to
  the lists of the batch: its entry when it loads, its error record when it does not.
\<close>

definition row_marks :: "'v dataframe \<Rightarrow> string list \<Rightarrow> bool list" where
  "row_marks df sub =
     (if columns df = [] \<or> data df = [] then []
      else duplicated_from [] (map (take_cols df sub) (data df)))"

definition loads :: "'v system \<Rightarrow> string option \<Rightarrow> path \<Rightarrow> bool" where
  "loads sys sheet f \<longleftrightarrow> \<not> isl (safe_read_excel sys f sheet)"

definition frame_of :: "'v system \<Rightarrow> string option \<Rightarrow> path \<Rightarrow> 'v dataframe" where
  "frame_of sys sheet f = projr (safe_read_excel sys f sheet)"

definition cols_of :: "'v system \<Rightarrow> string option \<Rightarrow> path \<Rightarrow> string list" where
  "cols_of sys sheet f = normalize_cols (columns (frame_of sys sheet f))"

definition entry_of ::
  "'v system \<Rightarrow> string option \<Rightarrow> string list \<Rightarrow> (string \<times> string list) list \<Rightarrow> path
     \<Rightarrow> file_result" where
  "entry_of sys sheet ref_cols key_candidates f =
     \<lparr>fr_file = name f, fr_path = str_path sys f,
      fr_profile = basic_profile (frame_of sys sheet f),
      duplicates = projr (dup_counts (frame_of sys sheet f) key_candidates),
      schema_matches_reference = (cols_of sys sheet f = ref_cols)\<rparr>"

definition error_of :: "'v system \<Rightarrow> string option \<Rightarrow> path \<Rightarrow> read_error" where
  "error_of sys sheet f =
     \<lparr>re_file = name f, re_error = repr sys (projl (safe_read_excel sys f sheet))\<rparr>"

text \<open>The dictionary of a batch with at least one file and a readable reference.\<close>

definition batch_payload ::
  "'v system \<Rightarrow> int \<Rightarrow> string option \<Rightarrow> bool \<Rightarrow> lake_paths \<Rightarrow> path list \<Rightarrow> 'v dataframe
     \<Rightarrow> payload" where
  "batch_payload sys year sheet strict p files ref_df =
     (let rc = normalize_cols (columns ref_df);
          ks = pick_candidate_keys rc;
          ni = (if strict then map name (filter (\<lambda>f. \<not> name_ok year f) files) else []);
          rs = map (entry_of sys sheet rc ks) (filter (loads sys sheet) files);
          ms = map (\<lambda>f. mismatch_of (name f) (cols_of sys sheet f) rc)
                 (filter (\<lambda>f. loads sys sheet f \<and> cols_of sys sheet f \<noteq> rc) files);
          es = map (error_of sys sheet) (filter (\<lambda>f. \<not> loads sys sheet f) files)
      in [(''year'', PInt year),
          (''status'', PStr (derive_status es ms ni)),
          (''base_dir'',
           PStr (str_path sys (resolve sys
                  (pjoin (pjoin (bronze p) ''transactions'') (str_int year))))),
          (''reference_file'', PStr (name (hd files))),
          (''reference_columns'', PStrs rc),
          (''strict_name_pattern'', PBool strict),
          (''name_issues'', PStrs ni),
          (''schema_mismatches'', PMismatches ms),
          (''read_errors'', PErrors es),
          (''files'', PFiles rs)])"


section \<open>A batch to run the statements on\<close>

text \<open>
  A year directory with four workbooks: the reference, a workbook with the same columns
  and repeated rows, a workbook under a name outside the pattern whose columns are those of
  the reference in another order, and a workbook that cannot be read.
\<close>

definition demo_ref :: "nat dataframe" where
  "demo_ref =
     \<lparr>columns = [''order_id'', ''cliente_id'', ''data'', ''valor''],
      data = [[Some 1, Some 7, Some 20, Some 5], [Some 2, Some 7, Some 21, None]]\<rparr>"

definition demo_dups :: "nat dataframe" where
  "demo_dups =
     \<lparr>columns = [''order_id'', ''cliente_id'', ''data'', ''valor''],
      data = [[Some 1, Some 7, Some 20, Some 5],
              [Some 1, Some 8, Some 21, Some 6],
              [Some 1, Some 7, Some 20, Some 5]]\<rparr>"

definition demo_reordered :: "nat dataframe" where
  "demo_reordered =
     \<lparr>columns = [''cliente_id'', ''order_id'', ''data'', ''valor''],
      data = [[Some 7, Some 3, Some 22, Some 9]]\<rparr>"

definition demo_sys :: "nat system" where
  "demo_sys =
     \<lparr>getenv = (\<lambda>n. if n = ''TOT_DATALAKE_ROOT'' then Some ''lake'' else None),
      resolve_root = (\<lambda>s. [s]),
      path_exists = (\<lambda>p. True),
      glob_xlsx = (\<lambda>d. [''2023-02.xlsx'', ''2023-01.xlsx'', ''zz.xlsx'', ''extra.xlsx'']),
      read_excel =
        (\<lambda>p s. if name p = ''2023-01.xlsx'' then Inr (Frame demo_ref)
               else if name p = ''2023-02.xlsx'' then Inr (Frame demo_dups)
               else if name p = ''extra.xlsx'' then Inr (Frame demo_reordered)
               else Inl (Raised ''BadZipFile'')),
      str_path = (\<lambda>p. concat (map (\<lambda>s. CHR ''/'' # s) p)),
      resolve = (\<lambda>p. p),
      repr = (\<lambda>e. case e of Raised s \<Rightarrow> s | _ \<Rightarrow> ''Exception'')\<rparr>"

definition demo_paths :: lake_paths where
  "demo_paths = \<lparr>project = ''PROJ_05_FOOD_COMMERCE'', datalake_root = [''lake'']\<rparr>"

definition demo_dir :: path where
  "demo_dir = [''lake'', ''01_bronze_raw'', ''PROJ_05_FOOD_COMMERCE'', ''transactions'', ''2023'']"

definition demo_files :: "path list" where
  "demo_files =
     [demo_dir @ [''2023-01.xlsx''], demo_dir @ [''2023-02.xlsx''],
      demo_dir @ [''extra.xlsx''], demo_dir @ [''zz.xlsx'']]"

text \<open>The same directory without any workbook.\<close>

definition empty_sys :: "nat system" where
  "empty_sys = demo_sys\<lparr>glob_xlsx := (\<lambda>d. [])\<rparr>"

text \<open>
  A directory with one workbook whose first header cell is \<^verbatim>\<open>order_id\<close> after a
  space, and whose two rows share their order id.
\<close>

definition padded_df :: "nat dataframe" where
  "padded_df =
     \<lparr>columns = ['' order_id'', ''valor''],
      data = [[Some 1, Some 5], [Some 1, Some 6]]\<rparr>"

definition padded_sys :: "nat system" where
  "padded_sys =
     demo_sys\<lparr>glob_xlsx := (\<lambda>d. [''2023-01.xlsx'']),
              read_excel := (\<lambda>p s. Inr (Frame padded_df))\<rparr>"

text \<open>
  The name pattern the script documents for strict naming, in the comment above its check
  and in the help of \<^verbatim>\<open>--strict-names\<close>: \<^verbatim>\<open>YYYY-MM.xlsx\<close>, the requested year in four
  digits, a dash, a month from 01 to 12, and the suffix. It is written from that
  documentation, to be compared with the check \<open>name_ok\<close> of the code.
\<close>

definition months :: "string list" where
  "months =
     [''01'', ''02'', ''03'', ''04'', ''05'', ''06'', ''07'', ''08'', ''09'', ''10'', ''11'', ''12'']"

definition year_month_name :: "int \<Rightarrow> string \<Rightarrow> bool" where
  "year_month_name year n \<longleftrightarrow>
     1000 \<le> year \<and> year \<le> 9999 \<and>
     n \<in> set (map (\<lambda>mm. str_int year @ ''-'' @ mm @ ''.xlsx'') months)"

text \<open>
  A directory with one workbook, readable and with the columns of the reference, under a
  name whose month part is not a month.
\<close>

definition lax_sys :: "nat system" where
  "lax_sys =
     demo_sys\<lparr>glob_xlsx := (\<lambda>d. [''2023-ab.xlsx'']),
              read_excel := (\<lambda>p s. Inr (Frame demo_ref))\<rparr>"

section \<open>Lemmas\<close>

subsection \<open>Marking duplicates\<close>

lemma duplicated_from_nth:
  "duplicated_from seen xs = map (\<lambda>i. xs ! i \<in> set seen \<union> set (take i xs)) [0..<length xs]"
proof (induction xs arbitrary: seen)
  case Nil
  then show ?case by simp
next
  case (Cons x xs)
  have "[0..<length (x # xs)] = 0 # map Suc [0..<length xs]"
    by (simp add: upt_conv_Cons map_Suc_upt del: upt_Suc)
  then show ?case
    using Cons.IH [of "seen @ [x]"] by (auto simp: comp_def)
qed

lemma count_true_duplicated:
  "count_true (duplicated_from [] xs) = card {i. i < length xs \<and> (\<exists>j<i. xs ! j = xs ! i)}"
proof -
  have "count_true (duplicated_from [] xs) =
        length (filter (\<lambda>i. xs ! i \<in> set (take i xs)) [0..<length xs])"
    by (simp add: count_true_def duplicated_from_nth length_filter_map comp_def)
  also have "\<dots> = card ({i. xs ! i \<in> set (take i xs)} \<inter> set [0..<length xs])"
    by (rule distinct_length_filter) simp
  also have "{i. xs ! i \<in> set (take i xs)} \<inter> set [0..<length xs] =
             {i. i < length xs \<and> (\<exists>j<i. xs ! j = xs ! i)}"
  proof -
    have "xs ! i \<in> set (take i xs) \<longleftrightarrow> (\<exists>j<i. xs ! j = xs ! i)" if "i < length xs" for i
    proof
      assume "xs ! i \<in> set (take i xs)"
      then obtain j where "j < length (take i xs)" "take i xs ! j = xs ! i"
        by (auto simp: in_set_conv_nth)
      then show "\<exists>j<i. xs ! j = xs ! i" by auto
    next
      assume "\<exists>j<i. xs ! j = xs ! i"
      then obtain j where j: "j < i" "xs ! j = xs ! i" by blast
      with that have "j < length (take i xs)" "take i xs ! j = xs ! i" by auto
      then show "xs ! i \<in> set (take i xs)" by (metis nth_mem)
    qed
    then show ?thesis by auto
  qed
  finally show ?thesis .
qed

lemma count_true_duplicated_mono:
  assumes "\<And>x y. f x = f y \<Longrightarrow> g x = g y"
  shows "count_true (duplicated_from (map f seen) (map f xs))
           \<le> count_true (duplicated_from (map g seen) (map g xs))"
proof (induction xs arbitrary: seen)
  case Nil
  then show ?case by (simp add: count_true_def)
next
  case (Cons x xs)
  have "f x \<in> f ` set seen \<Longrightarrow> g x \<in> g ` set seen"
    using assms by (metis imageE imageI)
  then show ?case
    using Cons.IH [of "seen @ [x]"] by (auto simp: count_true_def)
qed

lemma df_duplicated_all: "df_duplicated df None = Inr (row_marks df (columns df))"
  by (simp add: df_duplicated_def row_marks_def)

lemma df_duplicated_sub:
  assumes "list_all (\<lambda>c. c \<in> set (columns df)) kcols"
  shows "df_duplicated df (Some kcols) = Inr (row_marks df kcols)"
proof -
  have "filter (\<lambda>c. c \<notin> set (columns df)) kcols = []"
    using assms by (simp add: filter_empty_conv list_all_iff)
  then show ?thesis
    by (simp add: df_duplicated_def row_marks_def)
qed

lemma dup_keys_Inr: "\<exists>d'. dup_keys df ks d = Inr d'"
  by (induction ks arbitrary: d) (auto simp: df_duplicated_sub)

lemma dup_counts_Inr: "\<exists>d. dup_counts df ks = Inr d"
  by (simp add: dup_counts_def df_duplicated_all dup_keys_Inr)

lemma dup_keys_map_of:
  assumes "distinct (map fst ks)" and "dup_keys df ks d = Inr d'"
  shows "map_of d' k =
           (case map_of ks k of
              Some kcols \<Rightarrow>
                if list_all (\<lambda>c. c \<in> set (columns df)) kcols
                then Some (count_true (row_marks df kcols)) else map_of d k
            | None \<Rightarrow> map_of d k)"
  using assms
proof (induction ks arbitrary: d)
  case Nil
  then show ?case by simp
next
  case (Cons a ks)
  obtain kname kcols where a: "a = (kname, kcols)" by (cases a)
  have notin: "map_of ks kname = None"
    using Cons.prems(1) a by (simp add: map_of_eq_None_iff)
  show ?case
  proof (cases "list_all (\<lambda>c. c \<in> set (columns df)) kcols")
    case True
    with Cons.prems a
    have step: "dup_keys df ks (AList.update kname (count_true (row_marks df kcols)) d) = Inr d'"
      by (simp add: df_duplicated_sub)
    from Cons.IH [OF _ step] Cons.prems(1) a notin True show ?thesis
      by (auto simp: update_conv' split: option.splits)
  next
    case False
    with Cons.prems a have step: "dup_keys df ks d = Inr d'" by simp
    from Cons.IH [OF _ step] Cons.prems(1) a notin False show ?thesis
      by (auto split: option.splits)
  qed
qed

lemma dup_counts_map_of:
  assumes "distinct (map fst ks)" and "dup_counts df ks = Inr d"
  shows "map_of d k =
           (case map_of ks k of
              Some kcols \<Rightarrow>
                if list_all (\<lambda>c. c \<in> set (columns df)) kcols
                then Some (count_true (row_marks df kcols))
                else if k = ''dup_full_row_count''
                     then Some (count_true (row_marks df (columns df))) else None
            | None \<Rightarrow>
                if k = ''dup_full_row_count''
                then Some (count_true (row_marks df (columns df))) else None)"
proof -
  from assms(2) have "dup_keys df ks
      (AList.update ''dup_full_row_count'' (count_true (row_marks df (columns df))) []) = Inr d"
    by (simp add: dup_counts_def df_duplicated_all)
  from dup_keys_map_of [OF assms(1) this, of k] show ?thesis
    by (auto split: option.splits)
qed

subsection \<open>The loop over the files\<close>

lemma process_file_fail:
  assumes "\<not> loads sys sheet f"
  shows "process_file sys sheet rc ks f (rs, ms, es) = (rs, ms, es @ [error_of sys sheet f])"
proof -
  from assms obtain e where "safe_read_excel sys f sheet = Inl e"
    by (cases "safe_read_excel sys f sheet") (auto simp: loads_def)
  then show ?thesis
    by (simp add: process_file_def error_of_def)
qed

lemma process_file_ok:
  assumes "loads sys sheet f"
  shows "process_file sys sheet rc ks f (rs, ms, es) =
           (rs @ [entry_of sys sheet rc ks f],
            ms @ (if cols_of sys sheet f \<noteq> rc
                  then [mismatch_of (name f) (cols_of sys sheet f) rc] else []),
            es)"
proof -
  from assms obtain df where df: "safe_read_excel sys f sheet = Inr df"
    by (cases "safe_read_excel sys f sheet") (auto simp: loads_def)
  obtain d where d: "dup_counts df ks = Inr d"
    using dup_counts_Inr by blast
  from df d show ?thesis
    by (simp add: process_file_def entry_of_def cols_of_def frame_of_def Let_def)
qed

lemma process_files_lists:
  "process_files sys sheet rc ks fs (rs, ms, es) =
     (rs @ map (entry_of sys sheet rc ks) (filter (loads sys sheet) fs),
      ms @ map (\<lambda>f. mismatch_of (name f) (cols_of sys sheet f) rc)
             (filter (\<lambda>f. loads sys sheet f \<and> cols_of sys sheet f \<noteq> rc) fs),
      es @ map (error_of sys sheet) (filter (\<lambda>f. \<not> loads sys sheet f) fs))"
proof (induction fs arbitrary: rs ms es)
  case Nil
  then show ?case by simp
next
  case (Cons f fs)
  show ?case
  proof (cases "loads sys sheet f")
    case True
    then show ?thesis
      by (simp add: process_file_ok Cons.IH)
  next
    case False
    then show ?thesis
      by (simp add: process_file_fail Cons.IH)
  qed
qed

lemma validate_year_batch:
  assumes "resolve_paths sys = Inr p"
    and "find_xlsx_files sys (bronze p) year = Inr files"
    and "files \<noteq> []"
    and "safe_read_excel sys (hd files) sheet = Inr ref_df"
  shows "validate_year sys year sheet strict =
           Inr (batch_payload sys year sheet strict p files ref_df)"
proof -
  from assms(3) obtain ref_path rest where files: "files = ref_path # rest"
    by (cases files) auto
  with assms show ?thesis
    by (simp add: validate_year_def batch_payload_def Let_def process_files_lists)
qed

subsection \<open>The example batch\<close>

lemma demo_resolve: "resolve_paths demo_sys = Inr demo_paths"
  by (simp add: resolve_paths_def env_def demo_sys_def demo_paths_def)

lemma demo_bronze: "pjoin (pjoin (bronze demo_paths) ''transactions'') (str_int 2023) = demo_dir"
  by (simp add: bronze_def pjoin_def demo_paths_def demo_dir_def str_int_def digits.simps)

lemma demo_find: "find_xlsx_files demo_sys (bronze demo_paths) 2023 = Inr demo_files"
  unfolding find_xlsx_files_def demo_bronze Let_def
  by (simp add: demo_sys_def demo_files_def demo_dir_def pjoin_def)

subsection \<open>Candidate keys\<close>

lemma first_alias_Some:
  "first_alias A cs = Some c \<Longrightarrow> c \<in> set cs \<and> lower c \<in> set A"
  by (auto simp: first_alias_def find_Some_iff)

lemma first_alias_None:
  "first_alias A cs = None \<longleftrightarrow> (\<forall>c\<in>set cs. lower c \<notin> set A)"
  by (auto simp: first_alias_def find_None_iff)

lemma first_alias_truthy:
  assumes "first_alias A cs = Some c" and "[] \<notin> set A"
  shows "truthy (Some c)"
proof -
  from assms(1) have "lower c \<in> set A" by (simp add: first_alias_Some)
  with assms(2) have "lower c \<noteq> []" by metis
  then show ?thesis by (auto simp: lower_def)
qed

lemma aliases_nonempty:
  "[] \<notin> set pedido_aliases" "[] \<notin> set cliente_aliases" "[] \<notin> set data_aliases"
  by (simp_all add: pedido_aliases_def cliente_aliases_def data_aliases_def)

lemma pick_candidate_keys_eq:
  "pick_candidate_keys cs =
     (case first_alias pedido_aliases cs of
        Some p \<Rightarrow> [(''dup_order_id'', [p])] | None \<Rightarrow> []) @
     (case first_alias cliente_aliases cs of
        Some c \<Rightarrow>
          (case first_alias data_aliases cs of
             Some d \<Rightarrow> [(''dup_cliente_data'', [c, d])] | None \<Rightarrow> [])
      | None \<Rightarrow> [])"
  using first_alias_truthy [OF _ aliases_nonempty(1), of cs]
    first_alias_truthy [OF _ aliases_nonempty(2), of cs]
    first_alias_truthy [OF _ aliases_nonempty(3), of cs]
  by (auto simp: pick_candidate_keys_def Let_def split: option.splits simp del: truthy.simps)

lemma pick_candidate_keys_distinct: "distinct (map fst (pick_candidate_keys cs))"
  by (simp add: pick_candidate_keys_eq split: option.splits)

lemma pick_candidate_keys_names:
  "map_of (pick_candidate_keys cs) k = Some v \<Longrightarrow> k = ''dup_order_id'' \<or> k = ''dup_cliente_data''"
  by (auto simp: pick_candidate_keys_eq split: option.splits if_splits)

subsection \<open>Entries of the batch dictionary\<close>

lemma loads_iff: "loads sys sheet f \<longleftrightarrow> (\<exists>df. safe_read_excel sys f sheet = Inr df)"
  by (cases "safe_read_excel sys f sheet") (auto simp: loads_def)

lemma batch_status:
  "map_of (batch_payload sys year sheet strict p files ref_df) ''status'' =
     Some (PStr (derive_status
       (map (error_of sys sheet) (filter (\<lambda>f. \<not> loads sys sheet f) files))
       (map (\<lambda>f. mismatch_of (name f) (cols_of sys sheet f) (normalize_cols (columns ref_df)))
          (filter (\<lambda>f. loads sys sheet f \<and> cols_of sys sheet f \<noteq> normalize_cols (columns ref_df))
             files))
       (if strict then map name (filter (\<lambda>f. \<not> name_ok year f) files) else [])))"
  by (simp add: batch_payload_def Let_def)

lemma batch_name_issues:
  "map_of (batch_payload sys year sheet strict p files ref_df) ''name_issues'' =
     Some (PStrs (if strict then map name (filter (\<lambda>f. \<not> name_ok year f) files) else []))"
  by (simp add: batch_payload_def Let_def)

lemma batch_mismatches:
  "map_of (batch_payload sys year sheet strict p files ref_df) ''schema_mismatches'' =
     Some (PMismatches
       (map (\<lambda>f. mismatch_of (name f) (cols_of sys sheet f) (normalize_cols (columns ref_df)))
          (filter (\<lambda>f. loads sys sheet f \<and> cols_of sys sheet f \<noteq> normalize_cols (columns ref_df))
             files)))"
  by (simp add: batch_payload_def Let_def)

lemma batch_errors:
  "map_of (batch_payload sys year sheet strict p files ref_df) ''read_errors'' =
     Some (PErrors (map (error_of sys sheet) (filter (\<lambda>f. \<not> loads sys sheet f) files)))"
  by (simp add: batch_payload_def Let_def)

lemma batch_files:
  "map_of (batch_payload sys year sheet strict p files ref_df) ''files'' =
     Some (PFiles
       (map (entry_of sys sheet (normalize_cols (columns ref_df))
               (pick_candidate_keys (normalize_cols (columns ref_df))))
          (filter (loads sys sheet) files)))"
  by (simp add: batch_payload_def Let_def)

lemma demo_nonempty: "demo_files \<noteq> []"
  by (simp add: demo_files_def)

lemma demo_hd: "safe_read_excel demo_sys (hd demo_files) None = Inr demo_ref"
  by (simp add: safe_read_excel_def demo_sys_def demo_files_def demo_dir_def name_def)

lemma demo_filter_ok:
  "filter (\<lambda>f. \<not> isl (safe_read_excel demo_sys f None)) demo_files =
     [demo_dir @ [''2023-01.xlsx''], demo_dir @ [''2023-02.xlsx''], demo_dir @ [''extra.xlsx'']]"
  by (simp add: safe_read_excel_def demo_sys_def demo_files_def demo_dir_def name_def)

lemma demo_filter_bad:
  "filter (\<lambda>f. isl (safe_read_excel demo_sys f None)) demo_files = [demo_dir @ [''zz.xlsx'']]"
  by (simp add: safe_read_excel_def demo_sys_def demo_files_def demo_dir_def name_def)

lemma demo_bad: "safe_read_excel demo_sys (demo_dir @ [''zz.xlsx'']) None = Inl (Raised ''BadZipFile'')"
  by (simp add: safe_read_excel_def demo_sys_def demo_dir_def name_def)

subsection \<open>Counting the marks\<close>

lemma take_cols_eq_iff:
  "take_cols df cs r = take_cols df cs r' \<longleftrightarrow> (\<forall>c\<in>set cs. cell df r c = cell df r' c)"
  by (simp add: take_cols_def)

lemma take_cols_all:
  assumes "distinct (columns df)" and "length r = length (columns df)"
  shows "take_cols df (columns df) r = map Some r"
proof (rule nth_equalityI)
  show "length (take_cols df (columns df) r) = length (map Some r)"
    using assms by (simp add: take_cols_def)
next
  fix i assume "i < length (take_cols df (columns df) r)"
  then have i: "i < length r" using assms by (simp add: take_cols_def)
  with assms have "map_of (zip (columns df) r) (columns df ! i) = Some (r ! i)"
    by (simp add: map_of_zip_nth)
  with i assms show "take_cols df (columns df) r ! i = map Some r ! i"
    by (simp add: take_cols_def cell_def)
qed

lemma row_marks_count:
  "count_true (row_marks df sub) =
     (if columns df = [] \<or> data df = [] then 0
      else card {i. i < length (data df) \<and>
                    (\<exists>j<i. \<forall>c\<in>set sub. cell df (data df ! j) c = cell df (data df ! i) c)})"
proof (cases "columns df = [] \<or> data df = []")
  case True
  then show ?thesis by (auto simp: row_marks_def count_true_def)
next
  case False
  let ?xs = "map (take_cols df sub) (data df)"
  have "{i. i < length ?xs \<and> (\<exists>j<i. ?xs ! j = ?xs ! i)} =
        {i. i < length (data df) \<and>
            (\<exists>j<i. \<forall>c\<in>set sub. cell df (data df ! j) c = cell df (data df ! i) c)}"
    by (auto simp: take_cols_eq_iff)
  with False show ?thesis
    by (simp add: row_marks_def count_true_duplicated)
qed

lemma row_marks_full_count:
  assumes "wf_df df"
  shows "count_true (row_marks df (columns df)) =
           card {i. i < length (data df) \<and> (\<exists>j<i. data df ! j = data df ! i)}"
proof (cases "columns df = [] \<or> data df = []")
  case True
  with assms have "data df = []" by (auto simp: wf_df_def)
  then show ?thesis by (simp add: row_marks_def count_true_def)
next
  case False
  let ?xs = "map (take_cols df (columns df)) (data df)"
  have len: "length r = length (columns df)" if "r \<in> set (data df)" for r
    using assms that by (auto simp: wf_df_def list_all_iff)
  have eq: "?xs = map (map Some) (data df)"
    using assms len by (auto simp: take_cols_all wf_df_def)
  have "{i. i < length ?xs \<and> (\<exists>j<i. ?xs ! j = ?xs ! i)} =
        {i. i < length (data df) \<and> (\<exists>j<i. data df ! j = data df ! i)}"
    unfolding eq by (auto simp: inj_map_eq_map)
  with False show ?thesis
    by (simp add: row_marks_def count_true_duplicated)
qed

lemma row_marks_mono:
  assumes "set sub \<subseteq> set (columns df)"
  shows "count_true (row_marks df (columns df)) \<le> count_true (row_marks df sub)"
proof (cases "columns df = [] \<or> data df = []")
  case True
  then show ?thesis by (auto simp: row_marks_def count_true_def)
next
  case False
  have "take_cols df (columns df) r = take_cols df (columns df) r' \<Longrightarrow>
        take_cols df sub r = take_cols df sub r'" for r r'
    using assms by (auto simp: take_cols_eq_iff)
  from count_true_duplicated_mono [of "take_cols df (columns df)" "take_cols df sub" "[]" "data df", OF this]
  show ?thesis using False by (simp add: row_marks_def)
qed

lemma demo_keys:
  "pick_candidate_keys (normalize_cols (columns demo_ref)) =
     [(''dup_order_id'', [''order_id'']), (''dup_cliente_data'', [''cliente_id'', ''data''])]"
  by (simp add: pick_candidate_keys_def first_alias_def lower_def lower_chr_def
      cliente_aliases_def data_aliases_def pedido_aliases_def normalize_cols_def strip_def
      drop_leading.simps whitespace_def startswith_def demo_ref_def)

lemma demo_dup_counts:
  "dup_counts demo_dups
     [(''dup_order_id'', [''order_id'']), (''dup_cliente_data'', [''cliente_id'', ''data''])] =
   Inr [(''dup_full_row_count'', 1), (''dup_order_id'', 2), (''dup_cliente_data'', 1)]"
  by (simp add: dup_counts_def df_duplicated_def take_cols_def cell_def count_true_def
      demo_dups_def)

lemma demo_read_dups:
  "safe_read_excel demo_sys (demo_dir @ [''2023-02.xlsx'']) None = Inr demo_dups"
  by (simp add: safe_read_excel_def demo_sys_def demo_dir_def name_def)

lemma demo_dups_member: "demo_dir @ [''2023-02.xlsx''] \<in> set demo_files"
  by (simp add: demo_files_def)

lemma demo_dups_wf: "wf_df demo_dups"
  by (simp add: wf_df_def demo_dups_def)

lemma entry_duplicates:
  assumes "safe_read_excel sys f sheet = Inr df"
  shows "dup_counts df ks = Inr (duplicates (entry_of sys sheet rc ks f))"
proof -
  obtain d where "dup_counts df ks = Inr d" using dup_counts_Inr by blast
  with assms show ?thesis by (simp add: entry_of_def frame_of_def)
qed

lemma candidate_entry:
  assumes "dup_counts df (pick_candidate_keys rc) = Inr d"
    and "map_of d kname = Some n" and "kname \<noteq> ''dup_full_row_count''"
  shows "\<exists>kcols. map_of (pick_candidate_keys rc) kname = Some kcols \<and>
           list_all (\<lambda>c. c \<in> set (columns df)) kcols \<and>
           n = count_true (row_marks df kcols)"
  using dup_counts_map_of [OF pick_candidate_keys_distinct assms(1), of kname] assms(2,3)
  by (auto split: option.splits if_splits)

lemma full_entry:
  assumes "dup_counts df (pick_candidate_keys rc) = Inr d"
  shows "map_of d ''dup_full_row_count'' = Some (count_true (row_marks df (columns df)))"
proof -
  have "map_of (pick_candidate_keys rc) ''dup_full_row_count'' = None"
    using pick_candidate_keys_names [of rc "''dup_full_row_count''"]
    by (cases "map_of (pick_candidate_keys rc) ''dup_full_row_count''") auto
  with dup_counts_map_of [OF pick_candidate_keys_distinct assms, of "''dup_full_row_count''"]
  show ?thesis by simp
qed

lemma demo_loads_filter:
  "filter (loads demo_sys None) demo_files =
     [demo_dir @ [''2023-01.xlsx''], demo_dir @ [''2023-02.xlsx''], demo_dir @ [''extra.xlsx'']]"
  using demo_filter_ok by (simp add: loads_def [abs_def])

lemma demo_entry_names:
  "fr_file (entry_of demo_sys None rc ks (demo_dir @ [''2023-01.xlsx''])) = ''2023-01.xlsx''"
  "fr_file (entry_of demo_sys None rc ks (demo_dir @ [''2023-02.xlsx''])) = ''2023-02.xlsx''"
  "fr_file (entry_of demo_sys None rc ks (demo_dir @ [''extra.xlsx''])) = ''extra.xlsx''"
  by (simp_all add: entry_of_def name_def)

lemma demo_dups_entry:
  "duplicates (entry_of demo_sys None rc
      (pick_candidate_keys (normalize_cols (columns demo_ref))) (demo_dir @ [''2023-02.xlsx''])) =
   [(''dup_full_row_count'', 1), (''dup_order_id'', 2), (''dup_cliente_data'', 1)]"
  using entry_duplicates [OF demo_read_dups,
      of "pick_candidate_keys (normalize_cols (columns demo_ref))" rc]
  by (simp add: demo_keys demo_dup_counts)

subsection \<open>Comparing column lists\<close>

lemma sort_eq_of_mset_eq:
  fixes xs ys :: "'a::linorder list"
  assumes "mset xs = mset ys"
  shows "sort xs = sort ys"
proof -
  have "mset (sort ys) = mset xs" using assms by simp
  then show ?thesis by (rule properties_for_sort) simp
qed

lemma mismatch_of_reordered:
  assumes "mset cs = mset rc" and "cs \<noteq> rc"
  shows "mismatch_of n cs rc =
           \<lparr>mm_file = n, missing_cols = [], extra_cols = [], order_diff_only = True\<rparr>"
proof -
  from assms(1) have s: "set cs = set rc" by (rule mset_eq_setD)
  have "missing_of cs rc = []" "extra_of cs rc = []"
    using s by (simp_all add: missing_of_def extra_of_def)
  moreover have "order_diff_of cs rc"
    using assms(2) sort_eq_of_mset_eq [OF assms(1)] by (simp add: order_diff_of_def)
  ultimately show ?thesis by (simp add: mismatch_of_def)
qed

lemma cols_of_loaded:
  "safe_read_excel sys f sheet = Inr df \<Longrightarrow> cols_of sys sheet f = normalize_cols (columns df)"
  by (simp add: cols_of_def frame_of_def)

lemma demo_ref_cols:
  "normalize_cols (columns demo_ref) = [''order_id'', ''cliente_id'', ''data'', ''valor'']"
  by (simp add: normalize_cols_def strip_def drop_leading.simps whitespace_def
      startswith_def demo_ref_def)

lemma demo_reordered_cols:
  "normalize_cols (columns demo_reordered) = [''cliente_id'', ''order_id'', ''data'', ''valor'']"
  by (simp add: normalize_cols_def strip_def drop_leading.simps whitespace_def
      startswith_def demo_reordered_def)

lemma demo_read_extra:
  "safe_read_excel demo_sys (demo_dir @ [''extra.xlsx'']) None = Inr demo_reordered"
  by (simp add: safe_read_excel_def demo_sys_def demo_dir_def name_def)

lemma demo_read_ref:
  "safe_read_excel demo_sys (demo_dir @ [''2023-01.xlsx'']) None = Inr demo_ref"
  by (simp add: safe_read_excel_def demo_sys_def demo_dir_def name_def)

lemma demo_extra_member: "demo_dir @ [''extra.xlsx''] \<in> set demo_files"
  by (simp add: demo_files_def)

lemma demo_ref_member: "demo_dir @ [''2023-01.xlsx''] \<in> set demo_files"
  by (simp add: demo_files_def)

subsection \<open>An empty directory\<close>

lemma sort_map_Nil: "sort (map f xs) = [] \<longleftrightarrow> xs = []"
  by (metis length_0_conv length_map length_sort)

lemma resolve_paths_read_excel [simp]:
  "resolve_paths (sys\<lparr>read_excel := rd\<rparr>) = resolve_paths sys"
  by (simp add: resolve_paths_def env_def Let_def)

lemma find_xlsx_files_read_excel [simp]:
  "find_xlsx_files (sys\<lparr>read_excel := rd\<rparr>) = find_xlsx_files sys"
  by (simp add: find_xlsx_files_def fun_eq_iff Let_def)

lemma validate_year_no_files:
  assumes "resolve_paths sys = Inr p"
    and "find_xlsx_files sys (bronze p) year = Inr []"
  shows "validate_year sys year sheet strict =
           Inr [(''year'', PInt year),
                (''status'', PStr ''no_files''),
                (''message'',
                 PStr (''Nenhum .xlsx encontrado em '' @
                       str_path sys (pjoin (pjoin (bronze p) ''transactions'') (str_int year))))]"
  using assms by (simp add: validate_year_def Let_def)

lemma empty_resolve: "resolve_paths empty_sys = Inr demo_paths"
  by (simp add: resolve_paths_def env_def empty_sys_def demo_sys_def demo_paths_def)

lemma empty_find: "find_xlsx_files empty_sys (bronze demo_paths) 2023 = Inr []"
  by (simp add: find_xlsx_files_def empty_sys_def demo_sys_def)

lemma entry_fields:
  assumes "safe_read_excel sys f sheet = Inr df"
  shows "fr_file (entry_of sys sheet rc ks f) = name f"
    and "fr_path (entry_of sys sheet rc ks f) = str_path sys f"
    and "fr_profile (entry_of sys sheet rc ks f) = basic_profile df"
    and "schema_matches_reference (entry_of sys sheet rc ks f) = (normalize_cols (columns df) = rc)"
  using assms by (simp_all add: entry_of_def frame_of_def cols_of_def)

lemma key_entry_iff_raw_labels:
  assumes "dup_counts df (pick_candidate_keys rc) = Inr d"
    and "map_of (pick_candidate_keys rc) kname = Some kcols"
  shows "(\<exists>n. map_of d kname = Some n) \<longleftrightarrow> list_all (\<lambda>c. c \<in> set (columns df)) kcols"
proof -
  have "kname \<noteq> ''dup_full_row_count''"
    using pick_candidate_keys_names [OF assms(2)] by auto
  with dup_counts_map_of [OF pick_candidate_keys_distinct assms(1), of kname] assms(2)
  show ?thesis by simp
qed



lemma padded_resolve: "resolve_paths padded_sys = Inr demo_paths"
  by (simp add: resolve_paths_def env_def padded_sys_def demo_sys_def demo_paths_def)

lemma padded_find:
  "find_xlsx_files padded_sys (bronze demo_paths) 2023 = Inr [demo_dir @ [''2023-01.xlsx'']]"
  unfolding find_xlsx_files_def demo_bronze Let_def
  by (simp add: padded_sys_def demo_sys_def pjoin_def)

lemma padded_read: "safe_read_excel padded_sys f None = Inr padded_df"
  by (simp add: safe_read_excel_def padded_sys_def)

lemma padded_cols: "normalize_cols (columns padded_df) = [''order_id'', ''valor'']"
  by (simp add: normalize_cols_def strip_def drop_leading.simps whitespace_def
      startswith_def padded_df_def)

lemma padded_keys:
  "pick_candidate_keys [''order_id'', ''valor''] = [(''dup_order_id'', [''order_id''])]"
  by (simp add: pick_candidate_keys_def first_alias_def lower_def lower_chr_def
      cliente_aliases_def data_aliases_def pedido_aliases_def)

lemma padded_dup_counts:
  "dup_counts padded_df [(''dup_order_id'', [''order_id''])] = Inr [(''dup_full_row_count'', 0)]"
  by (simp add: dup_counts_def df_duplicated_def take_cols_def cell_def count_true_def
      padded_df_def)

subsection \<open>Strict naming\<close>

lemma strict_names_frame:
  assumes "resolve_paths sys = Inr p"
    and "find_xlsx_files sys (bronze p) year = Inr files"
    and "files \<noteq> []"
    and "safe_read_excel sys (hd files) sheet = Inr ref_df"
  shows "\<exists>pl pl0 rs.
           validate_year sys year sheet True = Inr pl \<and>
           validate_year sys year sheet False = Inr pl0 \<and>
           map_of pl ''name_issues'' =
             Some (PStrs (map name (filter (\<lambda>f. \<not> name_ok year f) files))) \<and>
           map_of pl ''files'' = Some (PFiles rs) \<and>
           map_of pl0 ''files'' = Some (PFiles rs) \<and>
           map_of pl ''schema_mismatches'' = map_of pl0 ''schema_mismatches'' \<and>
           map_of pl ''read_errors'' = map_of pl0 ''read_errors'' \<and>
           (\<forall>f\<in>set files. \<forall>df. safe_read_excel sys f sheet = Inr df \<longrightarrow>
              (\<exists>fr\<in>set rs.
                 fr_file fr = name f \<and> fr_path fr = str_path sys f \<and>
                 fr_profile fr = basic_profile df \<and>
                 dup_counts df (pick_candidate_keys (normalize_cols (columns ref_df))) =
                   Inr (duplicates fr) \<and>
                 schema_matches_reference fr =
                   (normalize_cols (columns df) = normalize_cols (columns ref_df))))"
proof -
  let ?rc = "normalize_cols (columns ref_df)"
  let ?ks = "pick_candidate_keys ?rc"
  let ?pl = "batch_payload sys year sheet True p files ref_df"
  let ?base = "batch_payload sys year sheet False p files ref_df"
  let ?rs = "map (entry_of sys sheet ?rc ?ks) (filter (loads sys sheet) files)"
  have run: "validate_year sys year sheet True = Inr ?pl"
    using assms by (rule validate_year_batch)
  have run0: "validate_year sys year sheet False = Inr ?base"
    using assms by (rule validate_year_batch)
  have ni: "map_of ?pl ''name_issues'' =
      Some (PStrs (map name (filter (\<lambda>f. \<not> name_ok year f) files)))"
    by (simp add: batch_name_issues)
  have f: "map_of ?pl ''files'' = Some (PFiles ?rs)" "map_of ?base ''files'' = Some (PFiles ?rs)"
    by (simp_all add: batch_files)
  have m: "map_of ?pl ''schema_mismatches'' = map_of ?base ''schema_mismatches''"
    by (simp add: batch_mismatches)
  have e: "map_of ?pl ''read_errors'' = map_of ?base ''read_errors''"
    by (simp add: batch_errors)
  have ent: "\<exists>fr\<in>set ?rs.
      fr_file fr = name f \<and> fr_path fr = str_path sys f \<and>
      fr_profile fr = basic_profile df \<and> dup_counts df ?ks = Inr (duplicates fr) \<and>
      schema_matches_reference fr = (normalize_cols (columns df) = ?rc)"
    if "f \<in> set files" and df: "safe_read_excel sys f sheet = Inr df" for f df
  proof -
    have "entry_of sys sheet ?rc ?ks f \<in> set ?rs"
      using that by (auto simp: loads_iff)
    then show ?thesis
      using entry_fields [OF df, of ?rc ?ks] entry_duplicates [OF df, of ?ks ?rc]
      by blast
  qed
  from run run0 ni f m e ent show ?thesis by blast
qed

lemma lax_resolve: "resolve_paths lax_sys = Inr demo_paths"
  by (simp add: resolve_paths_def env_def lax_sys_def demo_sys_def demo_paths_def)

lemma lax_find:
  "find_xlsx_files lax_sys (bronze demo_paths) 2023 = Inr [demo_dir @ [''2023-ab.xlsx'']]"
  unfolding find_xlsx_files_def demo_bronze Let_def
  by (simp add: lax_sys_def demo_sys_def pjoin_def)

lemma lax_read: "safe_read_excel lax_sys f None = Inr demo_ref"
  by (simp add: safe_read_excel_def lax_sys_def)

lemma lax_name_ok: "name_ok 2023 (demo_dir @ [''2023-ab.xlsx''])"
proof -
  have y: "str_int 2023 = ''2023''"
    by (simp add: str_int_def digits.simps)
  have s: "stem (demo_dir @ [''2023-ab.xlsx'']) = ''2023-ab''"
    by (simp add: stem_def name_def demo_dir_def)
  show ?thesis
    unfolding name_ok_def s y by (simp add: startswith_def py_len_def is_continuation_def)
qed

section \<open>The claims\<close>

text \<open>
  In the statements below a batch with at least one discovered file and a readable
  reference is given by four facts: the configuration resolves to \<open>p\<close>, discovery under
  \<open>bronze p\<close> returns the list \<open>files\<close>, that list is not empty, and its first file
  reads as the frame \<open>ref_df\<close>. A file fails to load when \<open>safe_read_excel\<close> returns an
  exception for it (\<open>isl\<close>).
\<close>

text \<open>
  Claim C1. For a batch with at least one discovered file and a readable reference, the
  status of the result of \<open>validate_year\<close> is \<^verbatim>\<open>error\<close> if at least one file failed
  to load; otherwise \<^verbatim>\<open>warning\<close> if the result lists at least one schema mismatch or
  at least one naming issue; otherwise \<^verbatim>\<open>ok\<close>.
\<close>

theorem status_priority:
  assumes "resolve_paths sys = Inr p"
    and "find_xlsx_files sys (bronze p) year = Inr files"
    and "files \<noteq> []"
    and "safe_read_excel sys (hd files) sheet = Inr ref_df"
  shows "\<exists>pl ms ni.
           validate_year sys year sheet strict = Inr pl \<and>
           map_of pl ''schema_mismatches'' = Some (PMismatches ms) \<and>
           map_of pl ''name_issues'' = Some (PStrs ni) \<and>
           map_of pl ''status'' =
             Some (PStr
               (if \<exists>f\<in>set files. isl (safe_read_excel sys f sheet) then ''error''
                else if ms \<noteq> [] \<or> ni \<noteq> [] then ''warning''
                else ''ok''))"
proof -
  let ?pl = "batch_payload sys year sheet strict p files ref_df"
  have run: "validate_year sys year sheet strict = Inr ?pl"
    using assms by (rule validate_year_batch)
  have errs: "map (error_of sys sheet) (filter (\<lambda>f. \<not> loads sys sheet f) files) \<noteq> [] \<longleftrightarrow>
      (\<exists>f\<in>set files. isl (safe_read_excel sys f sheet))"
    by (auto simp: filter_empty_conv loads_def)
  show ?thesis
    using run batch_mismatches [of sys year sheet strict p files ref_df]
      batch_name_issues [of sys year sheet strict p files ref_df]
      batch_status [of sys year sheet strict p files ref_df] errs
    by (auto simp: derive_status_def simp del: map_is_Nil_conv)
qed

theorem status_priority_witness:
  "\<exists>pl. validate_year demo_sys 2023 None True = Inr pl \<and>
        map_of pl ''status'' = Some (PStr ''error'')"
proof -
  have "demo_dir @ [''zz.xlsx''] \<in> set demo_files"
    by (simp add: demo_files_def)
  then have bad: "\<exists>f\<in>set demo_files. isl (safe_read_excel demo_sys f None)"
    using demo_bad by force
  from status_priority [OF demo_resolve demo_find demo_nonempty demo_hd, of True] bad
  show ?thesis by auto
qed

text \<open>
  Claim C2. For a batch with \<open>N \<ge> 1\<close> discovered files and a readable reference, every
  discovered file gives exactly one entry in exactly one of two lists: the files that load
  are, in order, the entries of \<^verbatim>\<open>files\<close> (by name and path), the files that raise are,
  in order, the entries of \<^verbatim>\<open>read_errors\<close>, each with the name of the file and the
  rendering of its exception, and the two lengths add up to \<open>N\<close>. Both lists range over
  the whole list of discovered files, so a failure does not stop the files after it.
\<close>

theorem every_file_once:
  assumes "resolve_paths sys = Inr p"
    and "find_xlsx_files sys (bronze p) year = Inr files"
    and "files \<noteq> []"
    and "safe_read_excel sys (hd files) sheet = Inr ref_df"
  shows "\<exists>pl rs es.
           validate_year sys year sheet strict = Inr pl \<and>
           map_of pl ''files'' = Some (PFiles rs) \<and>
           map_of pl ''read_errors'' = Some (PErrors es) \<and>
           map fr_file rs =
             map name (filter (\<lambda>f. \<not> isl (safe_read_excel sys f sheet)) files) \<and>
           map fr_path rs =
             map (str_path sys) (filter (\<lambda>f. \<not> isl (safe_read_excel sys f sheet)) files) \<and>
           es = map (\<lambda>f. \<lparr>re_file = name f,
                          re_error = repr sys (projl (safe_read_excel sys f sheet))\<rparr>)
                  (filter (\<lambda>f. isl (safe_read_excel sys f sheet)) files) \<and>
           length rs + length es = length files"
proof -
  let ?pl = "batch_payload sys year sheet strict p files ref_df"
  have run: "validate_year sys year sheet strict = Inr ?pl"
    using assms by (rule validate_year_batch)
  have ok: "loads sys sheet = (\<lambda>f. \<not> isl (safe_read_excel sys f sheet))"
    by (simp add: loads_def fun_eq_iff)
  have len: "length (filter (\<lambda>f. \<not> isl (safe_read_excel sys f sheet)) files) +
      length (filter (\<lambda>f. isl (safe_read_excel sys f sheet)) files) = length files"
    using sum_length_filter_compl [of "\<lambda>f. isl (safe_read_excel sys f sheet)" files]
    by simp
  have names: "map fr_file (map (entry_of sys sheet rc ks) fs) = map name fs" for rc ks fs
    by (simp add: entry_of_def comp_def)
  have paths: "map fr_path (map (entry_of sys sheet rc ks) fs) = map (str_path sys) fs" for rc ks fs
    by (simp add: entry_of_def comp_def)
  have errs: "map (error_of sys sheet) fs =
      map (\<lambda>f. \<lparr>re_file = name f,
                 re_error = repr sys (projl (safe_read_excel sys f sheet))\<rparr>) fs" for fs
    by (simp add: error_of_def)
  let ?rs = "map (entry_of sys sheet (normalize_cols (columns ref_df))
                  (pick_candidate_keys (normalize_cols (columns ref_df))))
             (filter (\<lambda>f. \<not> isl (safe_read_excel sys f sheet)) files)"
  let ?es = "map (\<lambda>f. \<lparr>re_file = name f,
                          re_error = repr sys (projl (safe_read_excel sys f sheet))\<rparr>)
             (filter (\<lambda>f. isl (safe_read_excel sys f sheet)) files)"
  have f: "map_of ?pl ''files'' = Some (PFiles ?rs)"
    using batch_files [of sys year sheet strict p files ref_df] unfolding ok .
  have e: "map_of ?pl ''read_errors'' = Some (PErrors ?es)"
    using batch_errors [of sys year sheet strict p files ref_df]
    unfolding ok errs by simp
  have l: "length ?rs + length ?es = length files"
    using len by simp
  from run f e names paths l show ?thesis by blast
qed

theorem every_file_once_witness:
  "\<exists>pl rs es.
     validate_year demo_sys 2023 None False = Inr pl \<and>
     map_of pl ''files'' = Some (PFiles rs) \<and>
     map_of pl ''read_errors'' = Some (PErrors es) \<and>
     map fr_file rs = [''2023-01.xlsx'', ''2023-02.xlsx'', ''extra.xlsx''] \<and>
     es = [\<lparr>re_file = ''zz.xlsx'', re_error = ''BadZipFile''\<rparr>] \<and>
     length rs + length es = 4"
proof -
  have n: "map name [demo_dir @ [''2023-01.xlsx''], demo_dir @ [''2023-02.xlsx''],
                     demo_dir @ [''extra.xlsx'']] =
           [''2023-01.xlsx'', ''2023-02.xlsx'', ''extra.xlsx'']"
    by (simp add: name_def)
  have e: "map (\<lambda>f. \<lparr>re_file = name f,
                        re_error = repr demo_sys (projl (safe_read_excel demo_sys f None))\<rparr>)
             [demo_dir @ [''zz.xlsx'']] =
           [\<lparr>re_file = ''zz.xlsx'', re_error = ''BadZipFile''\<rparr>]"
    by (simp add: demo_bad name_def) (simp add: demo_sys_def)
  have l: "length demo_files = 4"
    by (simp add: demo_files_def)
  from every_file_once [OF demo_resolve demo_find demo_nonempty demo_hd, of False]
  show ?thesis
    unfolding demo_filter_ok demo_filter_bad n e l
    by (elim exE conjE, intro exI conjI) assumption+
qed

text \<open>
  Claim C3. \<open>pick_candidate_keys\<close> is a function of the column list that gives at most
  two keys, under the labels \<^verbatim>\<open>dup_order_id\<close> and \<^verbatim>\<open>dup_cliente_data\<close> only. The
  order-id key is present exactly when some column lowers to an order or transaction alias,
  and is then one such column alone; the customer and date key is present exactly when some
  column lowers to a customer alias and some column lowers to a date alias, and is then a
  customer column followed by a date column; when no column lowers to an alias of any
  family the mapping is empty.
\<close>

theorem pick_candidate_keys_spec:
  "length (pick_candidate_keys cs) \<le> 2 \<and>
   distinct (map fst (pick_candidate_keys cs)) \<and>
   (\<forall>k v. map_of (pick_candidate_keys cs) k = Some v \<longrightarrow>
      k = ''dup_order_id'' \<or> k = ''dup_cliente_data'') \<and>
   ((\<exists>v. map_of (pick_candidate_keys cs) ''dup_order_id'' = Some v) \<longleftrightarrow>
      (\<exists>c\<in>set cs. lower c \<in> set pedido_aliases)) \<and>
   (\<forall>v. map_of (pick_candidate_keys cs) ''dup_order_id'' = Some v \<longrightarrow>
      (\<exists>c\<in>set cs. lower c \<in> set pedido_aliases \<and> v = [c])) \<and>
   ((\<exists>v. map_of (pick_candidate_keys cs) ''dup_cliente_data'' = Some v) \<longleftrightarrow>
      (\<exists>c\<in>set cs. lower c \<in> set cliente_aliases) \<and>
      (\<exists>d\<in>set cs. lower d \<in> set data_aliases)) \<and>
   (\<forall>v. map_of (pick_candidate_keys cs) ''dup_cliente_data'' = Some v \<longrightarrow>
      (\<exists>c\<in>set cs. \<exists>d\<in>set cs.
         lower c \<in> set cliente_aliases \<and> lower d \<in> set data_aliases \<and> v = [c, d])) \<and>
   ((\<forall>c\<in>set cs. lower c \<notin> set pedido_aliases \<and> lower c \<notin> set cliente_aliases \<and>
         lower c \<notin> set data_aliases) \<longrightarrow>
      pick_candidate_keys cs = [])"
proof -
  have len: "length (pick_candidate_keys cs) \<le> 2"
    by (simp add: pick_candidate_keys_eq split: option.splits)
  have names: "\<forall>k v. map_of (pick_candidate_keys cs) k = Some v \<longrightarrow>
      k = ''dup_order_id'' \<or> k = ''dup_cliente_data''"
    using pick_candidate_keys_names by blast
  have ped: "map_of (pick_candidate_keys cs) ''dup_order_id'' =
      map_option (\<lambda>p. [p]) (first_alias pedido_aliases cs)"
    by (simp add: pick_candidate_keys_eq split: option.splits)
  have cli: "map_of (pick_candidate_keys cs) ''dup_cliente_data'' =
      (case first_alias cliente_aliases cs of
         Some c \<Rightarrow> map_option (\<lambda>d. [c, d]) (first_alias data_aliases cs)
       | None \<Rightarrow> None)"
    by (simp add: pick_candidate_keys_eq split: option.splits)
  have ped_iff: "(\<exists>v. map_of (pick_candidate_keys cs) ''dup_order_id'' = Some v) \<longleftrightarrow>
      (\<exists>c\<in>set cs. lower c \<in> set pedido_aliases)"
    using first_alias_None [of pedido_aliases cs] by (cases "first_alias pedido_aliases cs") (auto simp: ped)
  have ped_val: "\<forall>v. map_of (pick_candidate_keys cs) ''dup_order_id'' = Some v \<longrightarrow>
      (\<exists>c\<in>set cs. lower c \<in> set pedido_aliases \<and> v = [c])"
    using first_alias_Some [of pedido_aliases cs] by (auto simp: ped)
  have cli_iff: "(\<exists>v. map_of (pick_candidate_keys cs) ''dup_cliente_data'' = Some v) \<longleftrightarrow>
      (\<exists>c\<in>set cs. lower c \<in> set cliente_aliases) \<and>
      (\<exists>d\<in>set cs. lower d \<in> set data_aliases)"
    using first_alias_None [of cliente_aliases cs] first_alias_None [of data_aliases cs]
    by (cases "first_alias cliente_aliases cs"; cases "first_alias data_aliases cs")
       (auto simp: cli)
  have cli_val: "\<forall>v. map_of (pick_candidate_keys cs) ''dup_cliente_data'' = Some v \<longrightarrow>
      (\<exists>c\<in>set cs. \<exists>d\<in>set cs.
         lower c \<in> set cliente_aliases \<and> lower d \<in> set data_aliases \<and> v = [c, d])"
    using first_alias_Some [of cliente_aliases cs] first_alias_Some [of data_aliases cs]
    by (auto simp: cli split: option.splits)
  have none: "(\<forall>c\<in>set cs. lower c \<notin> set pedido_aliases \<and> lower c \<notin> set cliente_aliases \<and>
         lower c \<notin> set data_aliases) \<longrightarrow> pick_candidate_keys cs = []"
    using first_alias_None [of pedido_aliases cs] first_alias_None [of cliente_aliases cs]
    by (auto simp: pick_candidate_keys_eq split: option.splits)
  from len pick_candidate_keys_distinct [of cs] names ped_iff ped_val cli_iff cli_val none
  show ?thesis by blast
qed

theorem pick_candidate_keys_spec_witness:
  "(\<exists>c\<in>set [''Order_ID'', ''cliente_id'', ''data'']. lower c \<in> set pedido_aliases) \<and>
   map_of (pick_candidate_keys [''Order_ID'', ''cliente_id'', ''data'']) ''dup_order_id'' =
     Some [''Order_ID''] \<and>
   map_of (pick_candidate_keys [''Order_ID'', ''cliente_id'', ''data'']) ''dup_cliente_data'' =
     Some [''cliente_id'', ''data''] \<and>
   lower ''valor'' \<notin> set pedido_aliases \<and>
   lower ''valor'' \<notin> set cliente_aliases \<and>
   lower ''valor'' \<notin> set data_aliases \<and>
   pick_candidate_keys [''valor''] = []"
proof -
  have a: "lower ''Order_ID'' = ''order_id''" "lower ''cliente_id'' = ''cliente_id''"
    "lower ''data'' = ''data''" "lower ''valor'' = ''valor''"
    by (simp_all add: lower_def lower_chr_def)
  have m: "''order_id'' \<in> set pedido_aliases" "''cliente_id'' \<in> set cliente_aliases"
    "''data'' \<in> set data_aliases" "''cliente_id'' \<notin> set pedido_aliases"
    "''data'' \<notin> set pedido_aliases" "''order_id'' \<notin> set cliente_aliases"
    "''data'' \<notin> set cliente_aliases" "''order_id'' \<notin> set data_aliases"
    "''cliente_id'' \<notin> set data_aliases"
    "''valor'' \<notin> set pedido_aliases" "''valor'' \<notin> set cliente_aliases"
    "''valor'' \<notin> set data_aliases"
    by (simp_all add: pedido_aliases_def cliente_aliases_def data_aliases_def)
  from pick_candidate_keys_spec [of "[''Order_ID'', ''cliente_id'', ''data'']"]
    pick_candidate_keys_spec [of "[''valor'']"] a m
  show ?thesis by (auto simp del: set_simps simp: list.set)
qed

text \<open>
  Claim C4. For a file of the batch that loads as a well-formed frame, the entry of that
  file in \<^verbatim>\<open>files\<close> has, under \<^verbatim>\<open>dup_full_row_count\<close>, the number of rows equal to
  some earlier row of the frame, and, for each candidate key that has an entry, the number
  of rows that agree with some earlier row on every column of that key. A row is counted
  when an earlier row matches it, so a first occurrence is not counted and every later
  one is.
\<close>

theorem duplicate_counts_meaning:
  assumes "resolve_paths sys = Inr p"
    and "find_xlsx_files sys (bronze p) year = Inr files"
    and "files \<noteq> []"
    and "safe_read_excel sys (hd files) sheet = Inr ref_df"
    and "f \<in> set files"
    and "safe_read_excel sys f sheet = Inr df"
    and "wf_df df"
  shows "\<exists>pl rs.
           validate_year sys year sheet strict = Inr pl \<and>
           map_of pl ''files'' = Some (PFiles rs) \<and>
           (\<exists>fr\<in>set rs.
              fr_file fr = name f \<and> fr_path fr = str_path sys f \<and>
              map_of (duplicates fr) ''dup_full_row_count'' =
                Some (card {i. i < length (data df) \<and> (\<exists>j<i. data df ! j = data df ! i)}) \<and>
              (\<forall>kname kcols n.
                 map_of (pick_candidate_keys (normalize_cols (columns ref_df))) kname =
                   Some kcols \<and>
                 map_of (duplicates fr) kname = Some n \<longrightarrow>
                 n = card {i. i < length (data df) \<and>
                              (\<exists>j<i. \<forall>c\<in>set kcols.
                                 cell df (data df ! j) c = cell df (data df ! i) c)}))"
proof -
  let ?rc = "normalize_cols (columns ref_df)"
  let ?ks = "pick_candidate_keys ?rc"
  let ?pl = "batch_payload sys year sheet strict p files ref_df"
  let ?rs = "map (entry_of sys sheet ?rc ?ks) (filter (loads sys sheet) files)"
  let ?fr = "entry_of sys sheet ?rc ?ks f"
  have run: "validate_year sys year sheet strict = Inr ?pl"
    using assms(1-4) by (rule validate_year_batch)
  have mem: "?fr \<in> set ?rs"
    using assms(5,6) by (auto simp: loads_iff)
  have d: "dup_counts df ?ks = Inr (duplicates ?fr)"
    using assms(6) by (rule entry_duplicates)
  have id: "fr_file ?fr = name f" "fr_path ?fr = str_path sys f"
    by (simp_all add: entry_of_def)
  have full: "map_of (duplicates ?fr) ''dup_full_row_count'' =
      Some (card {i. i < length (data df) \<and> (\<exists>j<i. data df ! j = data df ! i)})"
    using full_entry [OF d] row_marks_full_count [OF assms(7)] by simp
  have empty: "data df = []" if "columns df = [] \<or> data df = []"
    using that assms(7) by (auto simp: wf_df_def)
  have key: "n = card {i. i < length (data df) \<and>
                 (\<exists>j<i. \<forall>c\<in>set kcols. cell df (data df ! j) c = cell df (data df ! i) c)}"
    if ks: "map_of ?ks kname = Some kcols" and n: "map_of (duplicates ?fr) kname = Some n"
    for kname kcols n
  proof -
    have "kname \<noteq> ''dup_full_row_count''"
      using pick_candidate_keys_names [OF ks] by auto
    from candidate_entry [OF d n this] ks have "n = count_true (row_marks df kcols)"
      by auto
    then show ?thesis
      using empty by (auto simp: row_marks_count)
  qed
  from run batch_files [of sys year sheet strict p files ref_df] mem id full key
  show ?thesis by blast
qed

theorem duplicate_counts_meaning_witness:
  "\<exists>pl rs fr.
     validate_year demo_sys 2023 None False = Inr pl \<and>
     map_of pl ''files'' = Some (PFiles rs) \<and>
     fr \<in> set rs \<and>
     fr_file fr = ''2023-02.xlsx'' \<and>
     map_of (duplicates fr) ''dup_full_row_count'' = Some 1 \<and>
     card {i. i < length (data demo_dups) \<and>
              (\<exists>j<i. data demo_dups ! j = data demo_dups ! i)} = 1 \<and>
     map_of (duplicates fr) ''dup_order_id'' = Some 2 \<and>
     card {i. i < length (data demo_dups) \<and>
              (\<exists>j<i. cell demo_dups (data demo_dups ! j) ''order_id'' =
                      cell demo_dups (data demo_dups ! i) ''order_id'')} = 2"
proof -
  let ?rc = "normalize_cols (columns demo_ref)"
  let ?ks = "pick_candidate_keys ?rc"
  let ?e = "entry_of demo_sys None ?rc ?ks"
  let ?fr = "?e (demo_dir @ [''2023-02.xlsx''])"
  let ?A = "{i. i < length (data demo_dups) \<and> (\<exists>j<i. data demo_dups ! j = data demo_dups ! i)}"
  let ?B = "\<lambda>kcols. {i. i < length (data demo_dups) \<and>
              (\<exists>j<i. \<forall>c\<in>set kcols. cell demo_dups (data demo_dups ! j) c =
                      cell demo_dups (data demo_dups ! i) c)}"
  from duplicate_counts_meaning [OF demo_resolve demo_find demo_nonempty demo_hd
      demo_dups_member demo_read_dups demo_dups_wf, of False]
  obtain pl rs fr where run: "validate_year demo_sys 2023 None False = Inr pl"
    and rs: "map_of pl ''files'' = Some (PFiles rs)"
    and fr: "fr \<in> set rs" "fr_file fr = name (demo_dir @ [''2023-02.xlsx''])"
    and full: "map_of (duplicates fr) ''dup_full_row_count'' = Some (card ?A)"
    and key: "\<forall>kname kcols n. map_of ?ks kname = Some kcols \<and>
                 map_of (duplicates fr) kname = Some n \<longrightarrow> n = card (?B kcols)"
    by blast
  have "validate_year demo_sys 2023 None False =
        Inr (batch_payload demo_sys 2023 None False demo_paths demo_files demo_ref)"
    using demo_resolve demo_find demo_nonempty demo_hd by (rule validate_year_batch)
  with run rs batch_files [of demo_sys 2023 None False demo_paths demo_files demo_ref]
  have "rs = map ?e (filter (loads demo_sys None) demo_files)"
    by simp
  then have "rs = [?e (demo_dir @ [''2023-01.xlsx'']), ?fr, ?e (demo_dir @ [''extra.xlsx''])]"
    by (simp add: demo_loads_filter)
  with fr have "fr = ?fr"
    by (auto simp: demo_entry_names name_def)
  then have d: "duplicates fr =
      [(''dup_full_row_count'', 1), (''dup_order_id'', 2), (''dup_cliente_data'', 1)]"
    by (simp add: demo_dups_entry)
  have f1: "map_of (duplicates fr) ''dup_full_row_count'' = Some 1"
    and o2: "map_of (duplicates fr) ''dup_order_id'' = Some 2"
    by (simp_all add: d)
  from full f1 have cA: "card ?A = 1" by simp
  have "map_of ?ks ''dup_order_id'' = Some [''order_id'']"
    by (simp add: demo_keys)
  with key o2 have "2 = card (?B [''order_id''])" by blast
  then have cB: "card {i. i < length (data demo_dups) \<and>
              (\<exists>j<i. cell demo_dups (data demo_dups ! j) ''order_id'' =
                      cell demo_dups (data demo_dups ! i) ''order_id'')} = 2"
    by simp
  from run rs fr(1) f1 o2 cA cB \<open>fr = ?fr\<close> demo_entry_names(2) show ?thesis
    by blast
qed

text \<open>
  Claim C5. A candidate key has an entry in the duplicates mapping of a file exactly when
  all its columns are in the column set of the file, the normalized names. The guard of
  the loop tests the key's columns, which are normalized names of the reference, against
  the labels of the frame as read (lemma \<open>key_entry_iff_raw_labels\<close>), while the schema
  comparison of the same file uses the normalized names. On the workbook below, whose
  header is \<^verbatim>\<open>order_id\<close> after a space, the normalized columns are those of the
  reference, the schema matches, the key \<^verbatim>\<open>dup_order_id\<close> is a candidate, two rows
  share their order id, and the mapping has no \<^verbatim>\<open>dup_order_id\<close> entry.
\<close>

theorem padded_header_drops_key:
  "\<exists>pl fr.
     validate_year padded_sys 2023 None False = Inr pl \<and>
     map_of pl ''status'' = Some (PStr ''ok'') \<and>
     map_of pl ''reference_columns'' = Some (PStrs [''order_id'', ''valor'']) \<and>
     map_of pl ''files'' = Some (PFiles [fr]) \<and>
     schema_matches_reference fr \<and>
     normalize_cols (columns padded_df) = [''order_id'', ''valor''] \<and>
     pick_candidate_keys [''order_id'', ''valor''] = [(''dup_order_id'', [''order_id''])] \<and>
     duplicates fr = [(''dup_full_row_count'', 0)] \<and>
     map_of (duplicates fr) ''dup_order_id'' = None"
proof -
  let ?f = "demo_dir @ [''2023-01.xlsx'']"
  let ?rc = "[''order_id'', ''valor'']"
  let ?ks = "[(''dup_order_id'', [''order_id''])]"
  let ?pl = "batch_payload padded_sys 2023 None False demo_paths [?f] padded_df"
  let ?fr = "entry_of padded_sys None ?rc ?ks ?f"
  have run: "validate_year padded_sys 2023 None False = Inr ?pl"
    by (rule validate_year_batch [OF padded_resolve padded_find]) (simp_all add: padded_read)
  have l: "loads padded_sys None ?f"
    by (simp add: loads_iff padded_read)
  have c: "cols_of padded_sys None ?f = ?rc"
    using cols_of_loaded [OF padded_read] padded_cols by simp
  have st: "map_of ?pl ''status'' = Some (PStr ''ok'')"
    using l c by (simp add: batch_status padded_cols derive_status_def)
  have rc: "map_of ?pl ''reference_columns'' = Some (PStrs ?rc)"
    by (simp add: batch_payload_def Let_def padded_cols)
  have fs: "map_of ?pl ''files'' = Some (PFiles [?fr])"
    using l by (simp add: batch_files padded_cols padded_keys)
  have m: "schema_matches_reference ?fr"
    using c by (simp add: entry_of_def)
  have d: "duplicates ?fr = [(''dup_full_row_count'', 0)]"
    using entry_duplicates [where f = ?f and ks = ?ks and rc = ?rc, OF padded_read]
      padded_dup_counts by simp
  then have n: "map_of (duplicates ?fr) ''dup_order_id'' = None"
    by simp
  from run st rc fs m padded_cols padded_keys d n show ?thesis
    by (intro exI conjI) assumption+
qed

text \<open>
  Claim C6. A file of the batch whose normalized column list has the same columns as the
  reference, counted with their multiplicities, in another order: the record the loop
  appends for that file, which is in \<^verbatim>\<open>schema_mismatches\<close> of the result, has
  \<^verbatim>\<open>order_diff_only\<close> true and both \<^verbatim>\<open>missing_cols\<close> and \<^verbatim>\<open>extra_cols\<close> empty.
\<close>

theorem reordered_columns_flagged:
  assumes "resolve_paths sys = Inr p"
    and "find_xlsx_files sys (bronze p) year = Inr files"
    and "files \<noteq> []"
    and "safe_read_excel sys (hd files) sheet = Inr ref_df"
    and "f \<in> set files"
    and "safe_read_excel sys f sheet = Inr df"
    and "mset (normalize_cols (columns df)) = mset (normalize_cols (columns ref_df))"
    and "normalize_cols (columns df) \<noteq> normalize_cols (columns ref_df)"
  shows "(\<exists>fr. process_file sys sheet (normalize_cols (columns ref_df))
                 (pick_candidate_keys (normalize_cols (columns ref_df))) f ([], [], []) =
               ([fr],
                [\<lparr>mm_file = name f, missing_cols = [], extra_cols = [],
                   order_diff_only = True\<rparr>],
                [])) \<and>
         (\<exists>pl ms.
            validate_year sys year sheet strict = Inr pl \<and>
            map_of pl ''schema_mismatches'' = Some (PMismatches ms) \<and>
            \<lparr>mm_file = name f, missing_cols = [], extra_cols = [],
              order_diff_only = True\<rparr> \<in> set ms)"
proof -
  let ?rc = "normalize_cols (columns ref_df)"
  let ?pl = "batch_payload sys year sheet strict p files ref_df"
  let ?m = "\<lparr>mm_file = name f, missing_cols = [], extra_cols = [], order_diff_only = True\<rparr>"
  have l: "loads sys sheet f" using assms(6) by (auto simp: loads_iff)
  have c: "cols_of sys sheet f = normalize_cols (columns df)"
    using assms(6) by (rule cols_of_loaded)
  have m: "mismatch_of (name f) (cols_of sys sheet f) ?rc = ?m"
    unfolding c using assms(7,8) by (rule mismatch_of_reordered)
  have body: "\<exists>fr. process_file sys sheet ?rc (pick_candidate_keys ?rc) f ([], [], []) =
      ([fr], [?m], [])"
    using process_file_ok [OF l, of ?rc "pick_candidate_keys ?rc" "[]" "[]" "[]"] m c assms(8)
    by simp
  have run: "validate_year sys year sheet strict = Inr ?pl"
    using assms(1-4) by (rule validate_year_batch)
  have "?m \<in> set (map (\<lambda>f. mismatch_of (name f) (cols_of sys sheet f) ?rc)
          (filter (\<lambda>f. loads sys sheet f \<and> cols_of sys sheet f \<noteq> ?rc) files))"
    using assms(5,8) l c m by force
  with run batch_mismatches [of sys year sheet strict p files ref_df] body
  show ?thesis by blast
qed

theorem reordered_columns_flagged_witness:
  "\<exists>pl ms.
     validate_year demo_sys 2023 None False = Inr pl \<and>
     map_of pl ''schema_mismatches'' = Some (PMismatches ms) \<and>
     \<lparr>mm_file = ''extra.xlsx'', missing_cols = [], extra_cols = [],
       order_diff_only = True\<rparr> \<in> set ms"
proof -
  have m: "mset (normalize_cols (columns demo_reordered)) =
           mset (normalize_cols (columns demo_ref))"
    unfolding demo_ref_cols demo_reordered_cols by (simp add: add_mset_commute)
  have d: "normalize_cols (columns demo_reordered) \<noteq> normalize_cols (columns demo_ref)"
    unfolding demo_ref_cols demo_reordered_cols by simp
  have n: "name (demo_dir @ [''extra.xlsx'']) = ''extra.xlsx''"
    by (simp add: name_def)
  from reordered_columns_flagged [OF demo_resolve demo_find demo_nonempty demo_hd
      demo_extra_member demo_read_extra m d, of False]
  show ?thesis unfolding n by blast
qed

text \<open>
  Claim C7. Schema comparison is reflexive. For a file of the batch whose normalized
  column list equals that of the reference (the reference itself is one), the three
  comparisons give no missing column, no extra column and no difference of order only;
  the loop appends no mismatch record for the file, and its entry in \<^verbatim>\<open>files\<close> says
  that the schema matches the reference.
\<close>

theorem schema_comparison_reflexive:
  assumes "resolve_paths sys = Inr p"
    and "find_xlsx_files sys (bronze p) year = Inr files"
    and "files \<noteq> []"
    and "safe_read_excel sys (hd files) sheet = Inr ref_df"
    and "f \<in> set files"
    and "safe_read_excel sys f sheet = Inr df"
    and "normalize_cols (columns df) = normalize_cols (columns ref_df)"
  shows "missing_of (normalize_cols (columns df)) (normalize_cols (columns ref_df)) = [] \<and>
         extra_of (normalize_cols (columns df)) (normalize_cols (columns ref_df)) = [] \<and>
         \<not> order_diff_of (normalize_cols (columns df)) (normalize_cols (columns ref_df)) \<and>
         (\<exists>fr. process_file sys sheet (normalize_cols (columns ref_df))
                 (pick_candidate_keys (normalize_cols (columns ref_df))) f ([], [], []) =
               ([fr], [], []) \<and> schema_matches_reference fr) \<and>
         (\<exists>pl rs.
            validate_year sys year sheet strict = Inr pl \<and>
            map_of pl ''files'' = Some (PFiles rs) \<and>
            (\<exists>fr\<in>set rs. fr_file fr = name f \<and> fr_path fr = str_path sys f \<and>
               schema_matches_reference fr))"
proof -
  let ?rc = "normalize_cols (columns ref_df)"
  let ?ks = "pick_candidate_keys ?rc"
  let ?pl = "batch_payload sys year sheet strict p files ref_df"
  let ?fr = "entry_of sys sheet ?rc ?ks f"
  have l: "loads sys sheet f" using assms(6) by (auto simp: loads_iff)
  have c: "cols_of sys sheet f = ?rc"
    using cols_of_loaded [OF assms(6)] assms(7) by simp
  have cmp: "missing_of ?rc ?rc = []" "extra_of ?rc ?rc = []" "\<not> order_diff_of ?rc ?rc"
    by (simp_all add: missing_of_def extra_of_def order_diff_of_def)
  have fr: "fr_file ?fr = name f" "fr_path ?fr = str_path sys f" "schema_matches_reference ?fr"
    using c by (simp_all add: entry_of_def)
  have body: "process_file sys sheet ?rc ?ks f ([], [], []) = ([?fr], [], [])"
    using process_file_ok [OF l, of ?rc ?ks "[]" "[]" "[]"] c by simp
  have run: "validate_year sys year sheet strict = Inr ?pl"
    using assms(1-4) by (rule validate_year_batch)
  have mem: "?fr \<in> set (map (entry_of sys sheet ?rc ?ks) (filter (loads sys sheet) files))"
    using assms(5) l by simp
  from cmp fr body run batch_files [of sys year sheet strict p files ref_df] mem
  show ?thesis unfolding assms(7) by blast
qed

theorem schema_comparison_reflexive_witness:
  "\<exists>pl rs fr.
     validate_year demo_sys 2023 None False = Inr pl \<and>
     map_of pl ''files'' = Some (PFiles rs) \<and>
     fr \<in> set rs \<and> fr_file fr = ''2023-01.xlsx'' \<and> schema_matches_reference fr \<and>
     missing_of (normalize_cols (columns demo_ref)) (normalize_cols (columns demo_ref)) = [] \<and>
     extra_of (normalize_cols (columns demo_ref)) (normalize_cols (columns demo_ref)) = [] \<and>
     \<not> order_diff_of (normalize_cols (columns demo_ref)) (normalize_cols (columns demo_ref))"
proof -
  have n: "name (demo_dir @ [''2023-01.xlsx'']) = ''2023-01.xlsx''"
    by (simp add: name_def)
  from schema_comparison_reflexive [OF demo_resolve demo_find demo_nonempty demo_hd
      demo_ref_member demo_read_ref refl, of False]
  show ?thesis unfolding n by blast
qed

text \<open>
  Claim C8. When discovery returns no file, the directory that was searched exists and
  holds no workbook, and \<open>validate_year\<close> returns a dictionary with exactly the keys
  \<^verbatim>\<open>year\<close>, \<^verbatim>\<open>status\<close> and \<^verbatim>\<open>message\<close>: the status is \<^verbatim>\<open>no_files\<close>, the message
  ends with the searched directory, and there is no \<^verbatim>\<open>files\<close> and no
  \<^verbatim>\<open>schema_mismatches\<close> key. The result is the same whatever reading a workbook would
  do: nothing is read, so nothing is profiled, compared or counted.
\<close>

theorem no_files_result:
  assumes "resolve_paths sys = Inr p"
    and "find_xlsx_files sys (bronze p) year = Inr []"
  shows "path_exists sys (pjoin (pjoin (bronze p) ''transactions'') (str_int year)) \<and>
         glob_xlsx sys (pjoin (pjoin (bronze p) ''transactions'') (str_int year)) = [] \<and>
         (\<exists>pl.
            validate_year sys year sheet strict = Inr pl \<and>
            map fst pl = [''year'', ''status'', ''message''] \<and>
            map_of pl ''year'' = Some (PInt year) \<and>
            map_of pl ''status'' = Some (PStr ''no_files'') \<and>
            map_of pl ''message'' =
              Some (PStr (''Nenhum .xlsx encontrado em '' @
                          str_path sys
                            (pjoin (pjoin (bronze p) ''transactions'') (str_int year)))) \<and>
            map_of pl ''files'' = None \<and>
            map_of pl ''schema_mismatches'' = None \<and>
            (\<forall>rd. validate_year (sys\<lparr>read_excel := rd\<rparr>) year sheet strict = Inr pl))"
proof -
  let ?dir = "pjoin (pjoin (bronze p) ''transactions'') (str_int year)"
  let ?pl = "[(''year'', PInt year), (''status'', PStr ''no_files''),
              (''message'', PStr (''Nenhum .xlsx encontrado em '' @ str_path sys ?dir))]"
  from assms(2) have ex: "path_exists sys ?dir"
    by (auto simp: find_xlsx_files_def Let_def split: if_splits)
  from assms(2) have gl: "glob_xlsx sys ?dir = []"
    by (auto simp: find_xlsx_files_def Let_def sort_map_Nil split: if_splits)
  have run: "validate_year sys year sheet strict = Inr ?pl"
    using assms by (rule validate_year_no_files)
  have ind: "validate_year (sys\<lparr>read_excel := rd\<rparr>) year sheet strict = Inr ?pl" for rd
    using validate_year_no_files [of "sys\<lparr>read_excel := rd\<rparr>" p year sheet strict] assms
    by simp
  from ex gl run ind show ?thesis by simp
qed

theorem no_files_result_witness:
  "\<exists>pl.
     validate_year empty_sys 2023 None True = Inr pl \<and>
     map fst pl = [''year'', ''status'', ''message''] \<and>
     map_of pl ''status'' = Some (PStr ''no_files'') \<and>
     map_of pl ''message'' =
       Some (PStr (''Nenhum .xlsx encontrado em '' @
         ''/lake/01_bronze_raw/PROJ_05_FOOD_COMMERCE/transactions/2023'')) \<and>
     map_of pl ''files'' = None"
proof -
  have s: "str_path empty_sys (pjoin (pjoin (bronze demo_paths) ''transactions'') (str_int 2023)) =
           ''/lake/01_bronze_raw/PROJ_05_FOOD_COMMERCE/transactions/2023''"
    unfolding demo_bronze by (simp add: empty_sys_def demo_sys_def demo_dir_def)
  from no_files_result [OF empty_resolve empty_find, of None True]
  show ?thesis unfolding s by (elim conjE exE, intro exI conjI) assumption+
qed

text \<open>
  Claim C9. With strict naming on, every discovered file whose base name is not of the
  fixed-width year-month form is recorded in \<^verbatim>\<open>name_issues\<close>, and is still processed
  like a conforming file. The script documents the form as \<^verbatim>\<open>YYYY-MM.xlsx\<close>; its check
  accepts every stem of seven characters that starts with the year and a dash. Processing
  does not depend on the name (lemma \<open>strict_names_frame\<close>). Recording does not follow
  the documented form: the workbook \<^verbatim>\<open>2023-ab.xlsx\<close> below is not of that form, and the
  strict run on it records no naming issue and ends with the status \<^verbatim>\<open>ok\<close>.
\<close>

theorem lax_name_check_misses_violation:
  "\<not> year_month_name 2023 ''2023-ab.xlsx'' \<and>
   (\<exists>pl fr.
      validate_year lax_sys 2023 None True = Inr pl \<and>
      map_of pl ''strict_name_pattern'' = Some (PBool True) \<and>
      map_of pl ''name_issues'' = Some (PStrs []) \<and>
      map_of pl ''status'' = Some (PStr ''ok'') \<and>
      map_of pl ''files'' = Some (PFiles [fr]) \<and>
      fr_file fr = ''2023-ab.xlsx'')"
proof -
  let ?f = "demo_dir @ [''2023-ab.xlsx'']"
  let ?rc = "normalize_cols (columns demo_ref)"
  let ?pl = "batch_payload lax_sys 2023 None True demo_paths [?f] demo_ref"
  let ?fr = "entry_of lax_sys None ?rc (pick_candidate_keys ?rc) ?f"
  have v: "\<not> year_month_name 2023 ''2023-ab.xlsx''"
    by (simp add: year_month_name_def months_def str_int_def digits.simps)
  have run: "validate_year lax_sys 2023 None True = Inr ?pl"
    by (rule validate_year_batch [OF lax_resolve lax_find]) (simp_all add: lax_read)
  have l: "loads lax_sys None ?f"
    by (simp add: loads_iff lax_read)
  have c: "cols_of lax_sys None ?f = ?rc"
    using cols_of_loaded [OF lax_read] by simp
  have sp: "map_of ?pl ''strict_name_pattern'' = Some (PBool True)"
    by (simp add: batch_payload_def Let_def)
  have ni: "map_of ?pl ''name_issues'' = Some (PStrs [])"
    using lax_name_ok by (simp add: batch_name_issues)
  have st: "map_of ?pl ''status'' = Some (PStr ''ok'')"
    using l c lax_name_ok by (simp add: batch_status derive_status_def)
  have fs: "map_of ?pl ''files'' = Some (PFiles [?fr])"
    using l by (simp add: batch_files)
  have n: "fr_file ?fr = ''2023-ab.xlsx''"
    by (simp add: entry_of_def name_def)
  from run sp ni st fs n have "\<exists>pl fr.
      validate_year lax_sys 2023 None True = Inr pl \<and>
      map_of pl ''strict_name_pattern'' = Some (PBool True) \<and>
      map_of pl ''name_issues'' = Some (PStrs []) \<and>
      map_of pl ''status'' = Some (PStr ''ok'') \<and>
      map_of pl ''files'' = Some (PFiles [fr]) \<and>
      fr_file fr = ''2023-ab.xlsx''"
    by (intro exI conjI) assumption+
  with v show ?thesis by (rule conjI)
qed

text \<open>
  Claim C10. In every entry of \<^verbatim>\<open>files\<close>, the full-row duplicate count is at most the
  count of each candidate key present in the same mapping.
\<close>

theorem full_row_count_le_key_count:
  assumes "resolve_paths sys = Inr p"
    and "find_xlsx_files sys (bronze p) year = Inr files"
    and "files \<noteq> []"
    and "safe_read_excel sys (hd files) sheet = Inr ref_df"
  shows "\<exists>pl rs.
           validate_year sys year sheet strict = Inr pl \<and>
           map_of pl ''files'' = Some (PFiles rs) \<and>
           (\<forall>fr\<in>set rs. \<forall>kname n m.
              kname \<noteq> ''dup_full_row_count'' \<and>
              map_of (duplicates fr) kname = Some n \<and>
              map_of (duplicates fr) ''dup_full_row_count'' = Some m \<longrightarrow> m \<le> n)"
proof -
  let ?rc = "normalize_cols (columns ref_df)"
  let ?ks = "pick_candidate_keys ?rc"
  let ?pl = "batch_payload sys year sheet strict p files ref_df"
  let ?rs = "map (entry_of sys sheet ?rc ?ks) (filter (loads sys sheet) files)"
  have run: "validate_year sys year sheet strict = Inr ?pl"
    using assms by (rule validate_year_batch)
  have le: "m \<le> n"
    if fr: "fr \<in> set ?rs" and k: "kname \<noteq> ''dup_full_row_count''"
      and n: "map_of (duplicates fr) kname = Some n"
      and m: "map_of (duplicates fr) ''dup_full_row_count'' = Some m" for fr kname n m
  proof -
    from fr obtain f where f: "loads sys sheet f" "fr = entry_of sys sheet ?rc ?ks f"
      by auto
    then obtain df where df: "safe_read_excel sys f sheet = Inr df"
      by (auto simp: loads_iff)
    have d: "dup_counts df ?ks = Inr (duplicates fr)"
      unfolding f(2) using df by (rule entry_duplicates)
    from candidate_entry [OF d n k] obtain kcols where
      kc: "list_all (\<lambda>c. c \<in> set (columns df)) kcols" "n = count_true (row_marks df kcols)"
      by blast
    from full_entry [OF d] m have "m = count_true (row_marks df (columns df))" by simp
    moreover from kc(1) have "set kcols \<subseteq> set (columns df)" by (auto simp: list_all_iff)
    ultimately show ?thesis using kc(2) row_marks_mono by metis
  qed
  from run batch_files [of sys year sheet strict p files ref_df] le
  show ?thesis by blast
qed

theorem full_row_count_le_key_count_witness:
  "\<exists>pl rs fr.
     validate_year demo_sys 2023 None False = Inr pl \<and>
     map_of pl ''files'' = Some (PFiles rs) \<and>
     fr \<in> set rs \<and>
     map_of (duplicates fr) ''dup_order_id'' = Some 2 \<and>
     map_of (duplicates fr) ''dup_full_row_count'' = Some 1 \<and>
     (1::nat) \<le> 2"
proof -
  let ?rc = "normalize_cols (columns demo_ref)"
  let ?fr = "entry_of demo_sys None ?rc (pick_candidate_keys ?rc) (demo_dir @ [''2023-02.xlsx''])"
  from full_row_count_le_key_count [OF demo_resolve demo_find demo_nonempty demo_hd, of False]
  obtain pl rs where run: "validate_year demo_sys 2023 None False = Inr pl"
    and rs: "map_of pl ''files'' = Some (PFiles rs)"
    and le: "\<forall>fr\<in>set rs. \<forall>kname n m.
              kname \<noteq> ''dup_full_row_count'' \<and>
              map_of (duplicates fr) kname = Some n \<and>
              map_of (duplicates fr) ''dup_full_row_count'' = Some m \<longrightarrow> m \<le> n"
    by blast
  have "validate_year demo_sys 2023 None False =
        Inr (batch_payload demo_sys 2023 None False demo_paths demo_files demo_ref)"
    using demo_resolve demo_find demo_nonempty demo_hd by (rule validate_year_batch)
  with run rs batch_files [of demo_sys 2023 None False demo_paths demo_files demo_ref]
  have "rs = map (entry_of demo_sys None ?rc (pick_candidate_keys ?rc))
               (filter (loads demo_sys None) demo_files)"
    by simp
  then have mem: "?fr \<in> set rs"
    by (simp add: demo_loads_filter)
  have o: "map_of (duplicates ?fr) ''dup_order_id'' = Some 2"
    and f: "map_of (duplicates ?fr) ''dup_full_row_count'' = Some 1"
    by (simp_all add: demo_dups_entry)
  from le mem o f have "(1::nat) \<le> 2" by simp
  with run rs mem o f show ?thesis by blast
qed

end
